theory Spec2Isabelle
  imports Main
begin

section \<open>Lowering of the ONNX Gemm operator to Krnl loops\<close>

text \<open>
  The development embeds \<^verbatim>\<open>ONNXGemmOpLowering::matchAndRewrite\<close> of
  \<^verbatim>\<open>src/Conversion/ONNXToKrnl/Math/Gemm.cpp\<close>. The function is a code generator: it
  emits Krnl operations through a rewriter. The embedding has three layers:
  \<^item> the emitted operations, as a datatype (\<open>Op\<close>), and the index expressions they use;
  \<^item> the lowering itself, a function from the operator to the list of emitted operations,
    written in the order of the source;
  \<^item> an interpreter of the emitted operations over buffers, which records every load and
    store, so that statements about "the emitted computation" are statements about runs.
\<close>

subsection \<open>Buffers, SSA values and index expressions\<close>

text \<open>A dimension of a MemRefType: a size known at lowering time, or a dynamic one.\<close>

datatype dimsize = Static nat | Dynamic

text \<open>
  The buffers the emitted code touches: the three operands (\<open>operandAdaptor.A()\<close>,
  \<open>B()\<close>, \<open>C()\<close>), the output allocation \<open>alloc\<close> and the scalar \<open>reductionVal\<close>.
\<close>

datatype buffer = OperandA | OperandB | OperandC | Alloc | ReductionVal

text \<open>The induction variables \<open>n\<close>, \<open>m\<close> (outputLoops) and \<open>k\<close> (innerLoops).\<close>

datatype loopvar = IvN | IvM | IvK

text \<open>The SSA values of element type that the source names.\<close>

datatype Value =
    Val_alpha | Val_beta | Val_zero
  | Val_loadedA | Val_loadedB | Val_loadedY | Val_AB | Val_accumulated
  | Val_loadedAB | Val_alphaAB | Val_loadedC | Val_betaC | Val_Y

text \<open>
  Modelled from the spec: the class \<open>IndexExpr\<close> (section 9: a dimension expression is a
  tagged union of a known integer and a symbolic size; section 6: index expressions in the
  loop variables). \<open>Literal\<close> is a known integer, \<open>MemRefDim b i\<close> the size of axis \<open>i\<close> of
  buffer \<open>b\<close>, unknown until run time, \<open>InductionVar\<close> a loop variable, and \<open>Greater\<close> and
  \<open>Select\<close> are the comparison and the selection that are emitted when their operands are
  not all known.
\<close>

datatype IndexExpr =
    Literal nat
  | MemRefDim buffer nat
  | InductionVar loopvar
  | Greater IndexExpr IndexExpr
  | Select IndexExpr IndexExpr IndexExpr

text \<open>
  Modelled from the spec: \<open>operator>\<close> of \<open>IndexExpr\<close> against an integer. Two known
  integers are compared at lowering time (the truth value is the literal 1 or 0); anything
  else becomes a comparison evaluated at run time.
\<close>

fun gt :: "IndexExpr \<Rightarrow> nat \<Rightarrow> IndexExpr" where
  "gt (Literal d) c = Literal (if d > c then 1 else 0)"
| "gt e c = Greater e (Literal c)"

text \<open>
  Modelled from the spec: \<open>IndexExpr::select\<close>. A known condition selects at lowering
  time; a symbolic one emits a selection.
\<close>

fun select :: "IndexExpr \<Rightarrow> IndexExpr \<Rightarrow> IndexExpr \<Rightarrow> IndexExpr" where
  "select (Literal c) a b = (if c \<noteq> 0 then a else b)"
| "select p a b = Select p a b"

subsection \<open>The operator and the shape helper\<close>

text \<open>
  The Gemm operation as the lowering reads it: the MemRef types of the operands (\<open>typeC\<close>
  is \<open>None\<close> when the operator has no bias), the attributes \<open>alpha\<close> and \<open>beta\<close> as the
  constants \<open>emitConstantOp\<close> materialises in the element type, and the integer attributes
  \<open>transA\<close> and \<open>transB\<close>.
\<close>

record 'c ONNXGemmOp =
  typeA :: "dimsize list"
  typeB :: "dimsize list"
  typeC :: "dimsize list option"
  alpha :: 'c
  beta :: 'c
  transA :: int
  transB :: int

text \<open>The fields of \<open>ONNXGemmOpShapeHelper\<close> that the lowering reads.\<close>

record ONNXGemmOpShapeHelper =
  aDims :: "IndexExpr list"
  bDims :: "IndexExpr list"
  cDims :: "IndexExpr list"
  hasBias :: bool
  cRank :: int
  dimsForOutput :: "IndexExpr list"

text \<open>
  Modelled from the spec: \<open>MemRefBoundsIndexCapture::getDim\<close>, the dimension expression of
  an axis of an operand (section 6, Shape/Symbolic-Dimension Service): a concrete integer
  when the type gives the size, a symbolic placeholder otherwise.
\<close>

definition getDim :: "buffer \<Rightarrow> dimsize list \<Rightarrow> nat \<Rightarrow> IndexExpr" where
  "getDim b ty i = (case ty ! i of Static d \<Rightarrow> Literal d | Dynamic \<Rightarrow> MemRefDim b i)"

text \<open>
  Modelled from the spec: \<open>ONNXGemmOpShapeHelper::Compute\<close> (section 4.1, Shape Resolver).
  Effective A is (A.dim1, A.dim0) when \<open>transA\<close> is set and (A.dim0, A.dim1) otherwise,
  symmetrically for B; the output shape is (effective-A.rows, effective-B.cols); C's
  shape is right-aligned against the two output dimensions; A and B have rank 2 and a C of
  rank above 2 is an input-validation error (section 9). Equality of the reduction
  dimensions and of C's materialised dimensions with the output is not re-checked here.
\<close>

definition Compute :: "'c ONNXGemmOp \<Rightarrow> ONNXGemmOpShapeHelper option" where
  "Compute gemmOp =
    (if length (typeA gemmOp) = 2 \<and> length (typeB gemmOp) = 2 then
       let aD = (if transA gemmOp \<noteq> 0
                 then [getDim OperandA (typeA gemmOp) 1, getDim OperandA (typeA gemmOp) 0]
                 else [getDim OperandA (typeA gemmOp) 0, getDim OperandA (typeA gemmOp) 1]);
           bD = (if transB gemmOp \<noteq> 0
                 then [getDim OperandB (typeB gemmOp) 1, getDim OperandB (typeB gemmOp) 0]
                 else [getDim OperandB (typeB gemmOp) 0, getDim OperandB (typeB gemmOp) 1])
       in (case typeC gemmOp of
             None \<Rightarrow>
               Some \<lparr>aDims = aD, bDims = bD, cDims = [], hasBias = False, cRank = 0,
                     dimsForOutput = [aD ! 0, bD ! 1]\<rparr>
           | Some tC \<Rightarrow>
               if length tC \<le> 2
               then Some \<lparr>aDims = aD, bDims = bD,
                     cDims = replicate (2 - length tC) (Literal 1) @
                             map (getDim OperandC tC) [0..<length tC],
                     hasBias = True, cRank = int (length tC),
                     dimsForOutput = [aD ! 0, bD ! 1]\<rparr>
               else None)
     else None)"

subsection \<open>The emitted operations\<close>

text \<open>
  The operations the rewriter creates. \<open>KrnlIterateOp vars ubs body\<close> is the loop nest
  that \<open>BuildKrnlLoop\<close> builds: one level per variable, the first outermost, each from 0
  (the lower bound the source pushes) to its upper bound.
\<close>

datatype 'c Op =
    AllocOp buffer "IndexExpr list"
  | ConstantOp Value 'c
  | AllocaOp buffer
  | KrnlLoadOp Value buffer "IndexExpr list"
  | KrnlStoreOp Value buffer "IndexExpr list"
  | MulFOp Value Value Value
  | AddFOp Value Value Value
  | KrnlIterateOp "loopvar list" "IndexExpr list" "'c Op list"

text \<open>
  The element type of the output: its zero constant and the two arithmetic operations
  of the element type that \<open>MulFOp\<close> and \<open>AddFOp\<close> stand for. They are parameters of the
  development: the general statements below hold for any operations, without any law
  of arithmetic assumed.
\<close>

record 'c ElementType =
  constant0 :: 'c
  mulf :: "'c \<Rightarrow> 'c \<Rightarrow> 'c"
  addf :: "'c \<Rightarrow> 'c \<Rightarrow> 'c"

subsection \<open>The lowering\<close>

text \<open>Lines 60-62: the access function of \<open>res[n, m]\<close>.\<close>

definition resAccessFct :: "IndexExpr list" where
  "resAccessFct = [InductionVar IvN, InductionVar IvM]"

text \<open>Lines 80-89: the access functions of A and B inside the reduction loop.\<close>

definition aAccessFct :: "int \<Rightarrow> IndexExpr list" where
  "aAccessFct tA =
    (if tA \<noteq> 0 then [InductionVar IvK, InductionVar IvN]
     else [InductionVar IvN, InductionVar IvK])"

definition bAccessFct :: "int \<Rightarrow> IndexExpr list" where
  "bAccessFct tB =
    (if tB \<noteq> 0 then [InductionVar IvM, InductionVar IvK]
     else [InductionVar IvK, InductionVar IvM])"

text \<open>
  Lines 106-113: the access function of C under the broadcast rules. The loop variable
  \<open>x\<close> runs over the integers from \<open>2 - cRank\<close> to 1; an index outside \<open>cDims\<close> or
  \<open>resAccessFct\<close> is an error (\<open>None\<close>).
\<close>

definition cAccessEntry :: "ONNXGemmOpShapeHelper \<Rightarrow> int \<Rightarrow> IndexExpr option" where
  "cAccessEntry sh x =
    (if 0 \<le> x \<and> nat x < length (cDims sh) \<and> nat x < length resAccessFct
     then Some (select (gt (cDims sh ! nat x) 1) (resAccessFct ! nat x) (Literal 0))
     else None)"

definition cAccessFct :: "ONNXGemmOpShapeHelper \<Rightarrow> IndexExpr list option" where
  "cAccessFct sh =
    (if hasBias sh then those (map (cAccessEntry sh) [2 - cRank sh..1]) else Some [])"

text \<open>Lines 80-98: the body of the reduction loop.\<close>

definition innerBody :: "'c ONNXGemmOp \<Rightarrow> 'c Op list" where
  "innerBody gemmOp =
    [KrnlLoadOp Val_loadedA OperandA (aAccessFct (transA gemmOp)),
     KrnlLoadOp Val_loadedB OperandB (bAccessFct (transB gemmOp)),
     KrnlLoadOp Val_loadedY ReductionVal [],
     MulFOp Val_AB Val_loadedA Val_loadedB,
     AddFOp Val_accumulated Val_loadedY Val_AB,
     KrnlStoreOp Val_accumulated ReductionVal []]"

text \<open>
  Lines 64-126: the body of the output loops. The reduction loop is created right after
  the store of zero; the operations after it are those emitted once the insertion point
  is restored.
\<close>

definition outerBody ::
  "ONNXGemmOpShapeHelper \<Rightarrow> 'c ONNXGemmOp \<Rightarrow> IndexExpr list \<Rightarrow> 'c Op list" where
  "outerBody sh gemmOp cAcc =
    [AllocaOp ReductionVal,
     KrnlStoreOp Val_zero ReductionVal [],
     KrnlIterateOp [IvK] [aDims sh ! 1] (innerBody gemmOp),
     KrnlLoadOp Val_loadedAB ReductionVal [],
     MulFOp Val_alphaAB Val_alpha Val_loadedAB] @
    (if hasBias sh
     then [KrnlLoadOp Val_loadedC OperandC cAcc,
           MulFOp Val_betaC Val_beta Val_loadedC,
           AddFOp Val_Y Val_alphaAB Val_betaC,
           KrnlStoreOp Val_Y Alloc resAccessFct]
     else [KrnlStoreOp Val_alphaAB Alloc resAccessFct])"

text \<open>
  Lines 39-126 for a computed shape helper: the allocation of the output, the three
  constants, and the output loops over \<open>dimsForOutput\<close>. The lowering aborts (\<open>None\<close>)
  when an index into \<open>aDims\<close> or \<open>cDims\<close> is out of range, or when \<open>dimsForOutput\<close>
  does not give the two bounds of the two output loops.
\<close>

definition lowerGemm ::
  "'c ElementType \<Rightarrow> ONNXGemmOpShapeHelper \<Rightarrow> 'c ONNXGemmOp \<Rightarrow> 'c Op list option" where
  "lowerGemm et sh gemmOp =
    (if length (dimsForOutput sh) = 2 \<and> 2 \<le> length (aDims sh) then
       case cAccessFct sh of
         None \<Rightarrow> None
       | Some cAcc \<Rightarrow>
           Some [AllocOp Alloc (dimsForOutput sh),
                 ConstantOp Val_alpha (alpha gemmOp),
                 ConstantOp Val_beta (beta gemmOp),
                 ConstantOp Val_zero (constant0 et),
                 KrnlIterateOp [IvN, IvM] (dimsForOutput sh) (outerBody sh gemmOp cAcc)]
     else None)"

text \<open>
  \<open>matchAndRewrite\<close>: the shape helper is computed first and the lowering asserts that it
  succeeded.
\<close>

definition matchAndRewrite :: "'c ElementType \<Rightarrow> 'c ONNXGemmOp \<Rightarrow> 'c Op list option" where
  "matchAndRewrite et gemmOp =
    (case Compute gemmOp of None \<Rightarrow> None | Some sh \<Rightarrow> lowerGemm et sh gemmOp)"

subsection \<open>Running the emitted operations\<close>

text \<open>
  The emitted operations are run by an interpreter. The operations themselves are those
  of the source; what they do is the contract of the collaborators in section 6 of the
  specification, since their code is not part of the lowering.
\<close>

text \<open>
  Modelled from the spec: a buffer of the Buffer Allocation Service (a MemRef): a shape
  and one element per index tuple within the shape. An element holds no value until it
  is stored.
\<close>

record 'c MemRef =
  shape :: "nat list"
  elems :: "nat list \<Rightarrow> 'c option"

text \<open>An index tuple lies within a shape: same rank, every index below the size.\<close>

definition in_bounds :: "nat list \<Rightarrow> nat list \<Rightarrow> bool" where
  "in_bounds idx shp = list_all2 (<) idx shp"

text \<open>
  The state of a run: the buffers, the SSA values computed so far, the loop variables,
  and the record of every load and store in the order of execution.
\<close>

datatype 'c Event = Load buffer "nat list" | Store buffer "nat list" 'c

record 'c State =
  mem :: "buffer \<Rightarrow> 'c MemRef option"
  vals :: "Value \<Rightarrow> 'c option"
  ivs :: "loopvar \<Rightarrow> nat option"
  trace :: "'c Event list"

text \<open>
  Modelled from the spec: the run-time value of an index expression (section 6, the
  dimension expressions of the Shape/Symbolic-Dimension Service and the symbolic indices
  of the Element Access Service). A comparison yields 1 or 0 and a selection takes its
  second operand when the condition is not 0.
\<close>

fun eval :: "'c State \<Rightarrow> IndexExpr \<Rightarrow> nat option" where
  "eval s (Literal c) = Some c"
| "eval s (MemRefDim b i) =
     (case mem s b of
        None \<Rightarrow> None
      | Some r \<Rightarrow> if i < length (shape r) then Some (shape r ! i) else None)"
| "eval s (InductionVar v) = ivs s v"
| "eval s (Greater a b) =
     (case (eval s a, eval s b) of
        (Some x, Some y) \<Rightarrow> Some (if x > y then 1 else 0)
      | _ \<Rightarrow> None)"
| "eval s (Select p a b) =
     (case (eval s p, eval s a, eval s b) of
        (Some c, Some x, Some y) \<Rightarrow> Some (if c \<noteq> 0 then x else y)
      | _ \<Rightarrow> None)"

definition evals :: "'c State \<Rightarrow> IndexExpr list \<Rightarrow> nat list option" where
  "evals s es = those (map (eval s) es)"

text \<open>A sequence of operations runs in order and stops at the first failure.\<close>

primrec run :: "('s \<Rightarrow> 's option) list \<Rightarrow> 's \<Rightarrow> 's option" where
  "run [] s = Some s"
| "run (f # fs) s = (case f s of None \<Rightarrow> None | Some s' \<Rightarrow> run fs s')"

text \<open>
  Modelled from the spec: the loops of \<open>BuildKrnlLoop\<close> (section 6, Loop Construction
  Service): an ordered sequence of nested levels with upper bounds. One level runs its
  body once for every value of its variable from 0, in order; in a nest the first
  variable is the outermost level.
\<close>

primrec for_loop :: "nat list \<Rightarrow> (nat \<Rightarrow> 's \<Rightarrow> 's option) \<Rightarrow> 's \<Rightarrow> 's option" where
  "for_loop [] body s = Some s"
| "for_loop (i # is) body s =
     (case body i s of None \<Rightarrow> None | Some s' \<Rightarrow> for_loop is body s')"

primrec iterate ::
  "loopvar list \<Rightarrow> nat list \<Rightarrow> ('c State \<Rightarrow> 'c State option) \<Rightarrow> 'c State \<Rightarrow> 'c State option"
  where
  "iterate [] ubs body s = (case ubs of [] \<Rightarrow> body s | _ \<Rightarrow> None)"
| "iterate (v # vs) ubs body s =
     (case ubs of
        [] \<Rightarrow> None
      | ub # ubs' \<Rightarrow>
          for_loop [0..<ub]
            (\<lambda>i s'. iterate vs ubs' body (s'\<lparr>ivs := (ivs s')(v \<mapsto> i)\<rparr>)) s)"

text \<open>
  Modelled from the spec: \<open>krnl_load\<close> and \<open>krnl_store\<close> (section 6, Element Access
  Service): a point load and a point store of one element at an index tuple. An access
  outside the shape, to a buffer that does not exist or, for a load, to an element that
  holds no value, fails.
\<close>

definition load :: "Value \<Rightarrow> buffer \<Rightarrow> IndexExpr list \<Rightarrow> 'c State \<Rightarrow> 'c State option" where
  "load r b es s =
    (case (mem s b, evals s es) of
       (Some buf, Some idx) \<Rightarrow>
         if in_bounds idx (shape buf)
         then (case elems buf idx of
                 None \<Rightarrow> None
               | Some x \<Rightarrow>
                   Some (s\<lparr>vals := (vals s)(r \<mapsto> x), trace := trace s @ [Load b idx]\<rparr>))
         else None
     | _ \<Rightarrow> None)"

definition store :: "Value \<Rightarrow> buffer \<Rightarrow> IndexExpr list \<Rightarrow> 'c State \<Rightarrow> 'c State option" where
  "store v b es s =
    (case (vals s v, mem s b, evals s es) of
       (Some x, Some buf, Some idx) \<Rightarrow>
         if in_bounds idx (shape buf)
         then Some (s\<lparr>mem := (mem s)(b \<mapsto> buf\<lparr>elems := (elems buf)(idx \<mapsto> x)\<rparr>),
                      trace := trace s @ [Store b idx x]\<rparr>)
         else None
     | _ \<Rightarrow> None)"

text \<open>An arithmetic operation on two SSA values, with the element type's operation.\<close>

definition binop ::
  "('c \<Rightarrow> 'c \<Rightarrow> 'c) \<Rightarrow> Value \<Rightarrow> Value \<Rightarrow> Value \<Rightarrow> 'c State \<Rightarrow> 'c State option" where
  "binop f r a b s =
    (case (vals s a, vals s b) of
       (Some x, Some y) \<Rightarrow> Some (s\<lparr>vals := (vals s)(r \<mapsto> f x y)\<rparr>)
     | _ \<Rightarrow> None)"

text \<open>
  Modelled from the spec: \<open>insertAllocAndDeallocSimple\<close> and the scalar \<open>AllocaOp\<close>
  (section 6, Buffer Allocation Service): a fresh buffer of the given dimensions, none
  of whose elements holds a value yet.
\<close>

definition alloc_buffer :: "buffer \<Rightarrow> IndexExpr list \<Rightarrow> 'c State \<Rightarrow> 'c State option" where
  "alloc_buffer b es s =
    (case evals s es of
       None \<Rightarrow> None
     | Some shp \<Rightarrow> Some (s\<lparr>mem := (mem s)(b \<mapsto> \<lparr>shape = shp, elems = Map.empty\<rparr>)\<rparr>))"

text \<open>One emitted operation.\<close>

primrec exec :: "'c ElementType \<Rightarrow> 'c Op \<Rightarrow> 'c State \<Rightarrow> 'c State option" where
  "exec et (AllocOp b es) = alloc_buffer b es"
| "exec et (ConstantOp r c) = (\<lambda>s. Some (s\<lparr>vals := (vals s)(r \<mapsto> c)\<rparr>))"
| "exec et (AllocaOp b) = alloc_buffer b []"
| "exec et (KrnlLoadOp r b es) = load r b es"
| "exec et (KrnlStoreOp v b es) = store v b es"
| "exec et (MulFOp r a b) = binop (mulf et) r a b"
| "exec et (AddFOp r a b) = binop (addf et) r a b"
| "exec et (KrnlIterateOp vs ubs body) =
     (\<lambda>s. case evals s ubs of
             None \<Rightarrow> None
           | Some bounds \<Rightarrow> iterate vs bounds (run (map (exec et) body)) s)"

definition execute :: "'c ElementType \<Rightarrow> 'c Op list \<Rightarrow> 'c State \<Rightarrow> 'c State option" where
  "execute et ops = run (map (exec et) ops)"

text \<open>
  A buffer of a given shape whose elements are all initialised, and the state in which
  the emitted code starts: the operands hold their data, nothing else exists yet.
\<close>

definition memref_of :: "nat list \<Rightarrow> (nat list \<Rightarrow> 'c) \<Rightarrow> 'c MemRef" where
  "memref_of shp f =
    \<lparr>shape = shp, elems = (\<lambda>idx. if in_bounds idx shp then Some (f idx) else None)\<rparr>"

definition initial ::
  "'c MemRef \<Rightarrow> 'c MemRef \<Rightarrow> 'c MemRef option \<Rightarrow> 'c State" where
  "initial bufA bufB bufC =
    \<lparr>mem = (\<lambda>b. case b of OperandA \<Rightarrow> Some bufA | OperandB \<Rightarrow> Some bufB
                 | OperandC \<Rightarrow> bufC | _ \<Rightarrow> None),
     vals = Map.empty, ivs = Map.empty, trace = []\<rparr>"

text \<open>A run-time shape fits a MemRef type when it agrees with every static size.\<close>

definition conforms :: "dimsize list \<Rightarrow> nat list \<Rightarrow> bool" where
  "conforms ty shp = list_all2 (\<lambda>d n. case d of Static c \<Rightarrow> n = c | Dynamic \<Rightarrow> True) ty shp"

subsection \<open>An element type for the concrete scenarios\<close>

text \<open>
  The scenarios of the specification use small integer-valued matrices. \<open>fval\<close> holds the
  integer-valued floating-point numbers in sign-magnitude form, the sign first (\<open>True\<close>
  is negative), so that the two zeros are distinct values. On these numbers, while the
  magnitudes stay below \<open>2 ^ 24\<close>, IEEE-754 single-precision multiplication and addition
  (round to nearest) are exact: the product's sign is the exclusive or of the signs, a sum
  of equal signs keeps the sign, and a sum that cancels exactly is \<open>+0\<close>. No statement
  below uses \<open>fval\<close> at a larger magnitude.
\<close>

datatype fval = Float bool nat

fun fval_mul :: "fval \<Rightarrow> fval \<Rightarrow> fval" where
  "fval_mul (Float s1 m1) (Float s2 m2) = Float (s1 \<noteq> s2) (m1 * m2)"

fun fval_add :: "fval \<Rightarrow> fval \<Rightarrow> fval" where
  "fval_add (Float s1 m1) (Float s2 m2) =
    (if s1 = s2 then Float s1 (m1 + m2)
     else if m2 < m1 then Float s1 (m1 - m2)
     else if m1 < m2 then Float s2 (m2 - m1)
     else Float False 0)"

text \<open>
  Equality of these numbers as values, the floating-point comparison: the same
  magnitude and the same sign, the two zeros being equal.
\<close>

fun fval_eq :: "fval \<Rightarrow> fval \<Rightarrow> bool" where
  "fval_eq (Float s1 m1) (Float s2 m2) \<longleftrightarrow> m1 = m2 \<and> (s1 = s2 \<or> m1 = 0)"

definition f32 :: "fval ElementType" where
  "f32 = \<lparr>constant0 = Float False 0, mulf = fval_mul, addf = fval_add\<rparr>"

text \<open>A non-negative integer as a float, and a matrix given by its rows as element data.\<close>

definition pos :: "nat \<Rightarrow> fval" where
  "pos v = Float False v"

definition neg :: "nat \<Rightarrow> fval" where
  "neg v = Float True v"

definition matrix :: "'c list list \<Rightarrow> nat list \<Rightarrow> 'c" where
  "matrix rows idx = rows ! (idx ! 0) ! (idx ! 1)"

subsection \<open>Observing the emitted code and its runs\<close>

text \<open>
  The run of the code that \<open>matchAndRewrite\<close> emits for an operator, on given operand
  buffers: \<open>None\<close> when the lowering aborts or the run fails.
\<close>

definition lowered_run ::
  "'c ElementType \<Rightarrow> 'c ONNXGemmOp \<Rightarrow> 'c MemRef \<Rightarrow> 'c MemRef \<Rightarrow> 'c MemRef option \<Rightarrow>
   'c State option" where
  "lowered_run et gemmOp bufA bufB bufC =
    (case matchAndRewrite et gemmOp of
       None \<Rightarrow> None
     | Some ops \<Rightarrow> execute et ops (initial bufA bufB bufC))"

text \<open>The element of the output buffer \<open>alloc\<close> at an index once the run has ended.\<close>

definition stored_at ::
  "'c ElementType \<Rightarrow> 'c ONNXGemmOp \<Rightarrow> 'c MemRef \<Rightarrow> 'c MemRef \<Rightarrow> 'c MemRef option \<Rightarrow>
   nat list \<Rightarrow> 'c option" where
  "stored_at et gemmOp bufA bufB bufC idx =
    (case lowered_run et gemmOp bufA bufB bufC of
       None \<Rightarrow> None
     | Some s \<Rightarrow> (case mem s Alloc of None \<Rightarrow> None | Some out \<Rightarrow> elems out idx))"

text \<open>The loads and stores of the run, in order.\<close>

definition accesses ::
  "'c ElementType \<Rightarrow> 'c ONNXGemmOp \<Rightarrow> 'c MemRef \<Rightarrow> 'c MemRef \<Rightarrow> 'c MemRef option \<Rightarrow>
   'c Event list option" where
  "accesses et gemmOp bufA bufB bufC = map_option trace (lowered_run et gemmOp bufA bufB bufC)"

text \<open>The loads from some of the buffers in a list of events: buffer and index, in order.\<close>

fun loads_from :: "buffer list \<Rightarrow> 'c Event list \<Rightarrow> (buffer \<times> nat list) list" where
  "loads_from bs [] = []"
| "loads_from bs (Load b idx # es) =
     (if b \<in> set bs then (b, idx) # loads_from bs es else loads_from bs es)"
| "loads_from bs (Store b idx x # es) = loads_from bs es"

text \<open>The access functions of the load operations from a buffer in emitted code.\<close>

primrec load_accesses :: "buffer \<Rightarrow> 'c Op \<Rightarrow> IndexExpr list list" where
  "load_accesses b (AllocOp b' es) = []"
| "load_accesses b (ConstantOp r c) = []"
| "load_accesses b (AllocaOp b') = []"
| "load_accesses b (KrnlLoadOp r b' es) = (if b' = b then [es] else [])"
| "load_accesses b (KrnlStoreOp v b' es) = []"
| "load_accesses b (MulFOp r x y) = []"
| "load_accesses b (AddFOp r x y) = []"
| "load_accesses b (KrnlIterateOp vs ubs body) = concat (map (load_accesses b) body)"

definition emitted_loads ::
  "'c ElementType \<Rightarrow> 'c ONNXGemmOp \<Rightarrow> buffer \<Rightarrow> IndexExpr list list option" where
  "emitted_loads et gemmOp b =
    map_option (\<lambda>ops. concat (map (load_accesses b) ops)) (matchAndRewrite et gemmOp)"

text \<open>
  The loop structure of emitted code: one \<open>Nest\<close> per iterate operation, with its
  variables, its upper bounds and the loop nests inside its body.
\<close>

datatype nest = Nest "loopvar list" "IndexExpr list" "nest list"

primrec nests :: "'c Op \<Rightarrow> nest list" where
  "nests (AllocOp b es) = []"
| "nests (ConstantOp r c) = []"
| "nests (AllocaOp b) = []"
| "nests (KrnlLoadOp r b es) = []"
| "nests (KrnlStoreOp v b es) = []"
| "nests (MulFOp r x y) = []"
| "nests (AddFOp r x y) = []"
| "nests (KrnlIterateOp vs ubs body) = [Nest vs ubs (concat (map nests body))]"

definition emitted_nests :: "'c ElementType \<Rightarrow> 'c ONNXGemmOp \<Rightarrow> nest list option" where
  "emitted_nests et gemmOp =
    map_option (\<lambda>ops. concat (map nests ops)) (matchAndRewrite et gemmOp)"

subsection \<open>Reference quantities\<close>

text \<open>
  The quantities in which the results are stated. \<open>N\<close>, \<open>M\<close> and \<open>K\<close> are the numbers of
  rows and columns of the output and the size of the reduction dimension. The stored
  shapes of A and B follow from them and the transposition attributes.
\<close>

definition a_shape :: "int \<Rightarrow> nat \<Rightarrow> nat \<Rightarrow> nat list" where
  "a_shape tA N K = (if tA \<noteq> 0 then [K, N] else [N, K])"

definition b_shape :: "int \<Rightarrow> nat \<Rightarrow> nat \<Rightarrow> nat list" where
  "b_shape tB K M = (if tB \<noteq> 0 then [M, K] else [K, M])"

text \<open>The stored position of the element of effective A at \<open>(n, k)\<close>, of effective B at \<open>(k, m)\<close>.\<close>

definition a_idx :: "int \<Rightarrow> nat \<Rightarrow> nat \<Rightarrow> nat list" where
  "a_idx tA n k = (if tA \<noteq> 0 then [k, n] else [n, k])"

definition b_idx :: "int \<Rightarrow> nat \<Rightarrow> nat \<Rightarrow> nat list" where
  "b_idx tB k m = (if tB \<noteq> 0 then [m, k] else [k, m])"

text \<open>
  The position of C that belongs to output element \<open>(n, m)\<close>, for a C of shape \<open>sc\<close>: an
  axis of size above 1 is indexed by the loop variable of the output axis it is aligned
  with, any other axis by 0.
\<close>

definition c_idx :: "nat list \<Rightarrow> nat \<Rightarrow> nat \<Rightarrow> nat list" where
  "c_idx sc n m =
    (case sc of
       [] \<Rightarrow> []
     | [d] \<Rightarrow> [if 1 < d then m else 0]
     | d0 # d1 # _ \<Rightarrow> [if 1 < d0 then n else 0, if 1 < d1 then m else 0])"

text \<open>
  A shape of C that the upstream shape inference accepts for an \<open>N\<close> by \<open>M\<close> output: rank
  at most 2 and, right-aligned, every size 1 or the size of the output axis.
\<close>

definition broadcastable :: "nat list \<Rightarrow> nat \<Rightarrow> nat \<Rightarrow> bool" where
  "broadcastable sc N M =
    (case sc of
       [] \<Rightarrow> True
     | [d] \<Rightarrow> d = 1 \<or> d = M
     | [d0, d1] \<Rightarrow> (d0 = 1 \<or> d0 = N) \<and> (d1 = 1 \<or> d1 = M)
     | _ \<Rightarrow> False)"

text \<open>The optional operand C as its shape and data, and the buffer that holds it.\<close>

definition bufferC :: "(nat list \<times> (nat list \<Rightarrow> 'c)) option \<Rightarrow> 'c MemRef option" where
  "bufferC cOpt = (case cOpt of None \<Rightarrow> None | Some (sc, c) \<Rightarrow> Some (memref_of sc c))"

text \<open>
  A validated instance: the run-time shapes of A and B fit the operand types, and C is
  present exactly when the operator has a bias, with a shape that fits its type and
  broadcasts to the output.
\<close>

definition valid_instance ::
  "'c ONNXGemmOp \<Rightarrow> nat \<Rightarrow> nat \<Rightarrow> nat \<Rightarrow> (nat list \<times> (nat list \<Rightarrow> 'c)) option \<Rightarrow> bool" where
  "valid_instance g N M K cOpt \<longleftrightarrow>
     conforms (typeA g) (a_shape (transA g) N K) \<and>
     conforms (typeB g) (b_shape (transB g) K M) \<and>
     (case (typeC g, cOpt) of
        (None, None) \<Rightarrow> True
      | (Some tC, Some (sc, c)) \<Rightarrow> conforms tC sc \<and> broadcastable sc N M
      | _ \<Rightarrow> False)"

text \<open>
  The accumulator after the first \<open>k\<close> reduction steps for output element \<open>(n, m)\<close>: it
  starts from the zero constant and each step adds one product, in the order of \<open>k\<close>.
\<close>

definition acc_upto ::
  "'c ElementType \<Rightarrow> int \<Rightarrow> int \<Rightarrow> (nat list \<Rightarrow> 'c) \<Rightarrow> (nat list \<Rightarrow> 'c) \<Rightarrow>
   nat \<Rightarrow> nat \<Rightarrow> nat \<Rightarrow> 'c" where
  "acc_upto et tA tB a b n m k =
     foldl (\<lambda>acc j. addf et acc (mulf et (a (a_idx tA n j)) (b (b_idx tB j m))))
       (constant0 et) [0..<k]"

text \<open>The value of output element \<open>(n, m)\<close>.\<close>

definition gemm_val ::
  "'c ElementType \<Rightarrow> 'c ONNXGemmOp \<Rightarrow> (nat list \<Rightarrow> 'c) \<Rightarrow> (nat list \<Rightarrow> 'c) \<Rightarrow>
   (nat list \<times> (nat list \<Rightarrow> 'c)) option \<Rightarrow> nat \<Rightarrow> nat \<Rightarrow> nat \<Rightarrow> 'c" where
  "gemm_val et g a b cOpt K n m =
    (case cOpt of
       None \<Rightarrow> mulf et (alpha g) (acc_upto et (transA g) (transB g) a b n m K)
     | Some (sc, c) \<Rightarrow>
         addf et (mulf et (alpha g) (acc_upto et (transA g) (transB g) a b n m K))
                 (mulf et (beta g) (c (c_idx sc n m))))"

text \<open>
  The accesses of one reduction step, of one output element, of one output row and of
  the whole run.
\<close>

definition inner_events ::
  "'c ElementType \<Rightarrow> int \<Rightarrow> int \<Rightarrow> (nat list \<Rightarrow> 'c) \<Rightarrow> (nat list \<Rightarrow> 'c) \<Rightarrow>
   nat \<Rightarrow> nat \<Rightarrow> nat \<Rightarrow> 'c Event list" where
  "inner_events et tA tB a b n m k =
     [Load OperandA (a_idx tA n k), Load OperandB (b_idx tB k m), Load ReductionVal [],
      Store ReductionVal [] (acc_upto et tA tB a b n m (Suc k))]"

definition elem_events ::
  "'c ElementType \<Rightarrow> 'c ONNXGemmOp \<Rightarrow> (nat list \<Rightarrow> 'c) \<Rightarrow> (nat list \<Rightarrow> 'c) \<Rightarrow>
   (nat list \<times> (nat list \<Rightarrow> 'c)) option \<Rightarrow> nat \<Rightarrow> nat \<Rightarrow> nat \<Rightarrow> 'c Event list" where
  "elem_events et g a b cOpt K n m =
    Store ReductionVal [] (constant0 et) #
    concat (map (inner_events et (transA g) (transB g) a b n m) [0..<K]) @
    Load ReductionVal [] #
    (case cOpt of None \<Rightarrow> [] | Some (sc, c) \<Rightarrow> [Load OperandC (c_idx sc n m)]) @
    [Store Alloc [n, m] (gemm_val et g a b cOpt K n m)]"

definition row_events ::
  "'c ElementType \<Rightarrow> 'c ONNXGemmOp \<Rightarrow> (nat list \<Rightarrow> 'c) \<Rightarrow> (nat list \<Rightarrow> 'c) \<Rightarrow>
   (nat list \<times> (nat list \<Rightarrow> 'c)) option \<Rightarrow> nat \<Rightarrow> nat \<Rightarrow> nat \<Rightarrow> 'c Event list" where
  "row_events et g a b cOpt M K n = concat (map (elem_events et g a b cOpt K n) [0..<M])"

definition gemm_events ::
  "'c ElementType \<Rightarrow> 'c ONNXGemmOp \<Rightarrow> (nat list \<Rightarrow> 'c) \<Rightarrow> (nat list \<Rightarrow> 'c) \<Rightarrow>
   (nat list \<times> (nat list \<Rightarrow> 'c)) option \<Rightarrow> nat \<Rightarrow> nat \<Rightarrow> nat \<Rightarrow> 'c Event list" where
  "gemm_events et g a b cOpt N M K = concat (map (row_events et g a b cOpt M K) [0..<N])"

subsection \<open>Loop invariants\<close>

text \<open>What no emitted operation inside the loops changes: the operands and the constants.\<close>

definition frame ::
  "'c ElementType \<Rightarrow> 'c ONNXGemmOp \<Rightarrow> 'c MemRef \<Rightarrow> 'c MemRef \<Rightarrow> 'c MemRef option \<Rightarrow>
   'c State \<Rightarrow> bool" where
  "frame et g bufA bufB bufC s \<longleftrightarrow>
     mem s OperandA = Some bufA \<and> mem s OperandB = Some bufB \<and> mem s OperandC = bufC \<and>
     vals s Val_alpha = Some (alpha g) \<and> vals s Val_beta = Some (beta g) \<and>
     vals s Val_zero = Some (constant0 et)"

text \<open>Inside the reduction loop of element \<open>(n, m)\<close>: the accumulator and the accesses so far.\<close>

definition inner_inv ::
  "'c ElementType \<Rightarrow> 'c ONNXGemmOp \<Rightarrow> 'c MemRef \<Rightarrow> 'c MemRef \<Rightarrow> 'c MemRef option \<Rightarrow>
   'c MemRef \<Rightarrow> nat \<Rightarrow> nat \<Rightarrow> 'c \<Rightarrow> 'c Event list \<Rightarrow> 'c State \<Rightarrow> bool" where
  "inner_inv et g bufA bufB bufC out n m acc tr s \<longleftrightarrow>
     frame et g bufA bufB bufC s \<and> mem s Alloc = Some out \<and>
     ivs s IvN = Some n \<and> ivs s IvM = Some m \<and>
     mem s ReductionVal = Some \<lparr>shape = [], elems = [[] \<mapsto> acc]\<rparr> \<and> trace s = tr"

text \<open>
  Before element \<open>(n, m)\<close> of the output loops: every earlier element, in row-major
  order, holds its value, and the accesses so far are those of the earlier elements.
\<close>

definition outer_inv ::
  "'c ElementType \<Rightarrow> 'c ONNXGemmOp \<Rightarrow> (nat list \<Rightarrow> 'c) \<Rightarrow> (nat list \<Rightarrow> 'c) \<Rightarrow>
   (nat list \<times> (nat list \<Rightarrow> 'c)) option \<Rightarrow> nat \<Rightarrow> nat \<Rightarrow> nat \<Rightarrow> nat \<Rightarrow> nat \<Rightarrow>
   'c State \<Rightarrow> bool" where
  "outer_inv et g a b cOpt N M K n m s \<longleftrightarrow>
     frame et g (memref_of (a_shape (transA g) N K) a) (memref_of (b_shape (transB g) K M) b)
       (bufferC cOpt) s \<and>
     (\<exists>out. mem s Alloc = Some out \<and> shape out = [N, M] \<and>
        (\<forall>n' m'. n' < N \<and> m' < M \<and> (n' < n \<or> n' = n \<and> m' < m) \<longrightarrow>
           elems out [n', m'] = Some (gemm_val et g a b cOpt K n' m'))) \<and>
     trace s = gemm_events et g a b cOpt n M K @
               concat (map (elem_events et g a b cOpt K n) [0..<m])"

text \<open>The operand ranks that the shape helper accepts.\<close>

definition well_ranked :: "'c ONNXGemmOp \<Rightarrow> bool" where
  "well_ranked g \<longleftrightarrow>
     length (typeA g) = 2 \<and> length (typeB g) = 2 \<and>
     (case typeC g of None \<Rightarrow> True | Some tC \<Rightarrow> length tC \<le> 2)"

subsection \<open>The scenarios of the specification\<close>

text \<open>
  Section 8: A = [[1,2],[3,4]], B = [[5,6],[7,8]], C = [[1,1],[1,1]], all 2 by 2 and
  not transposed; without bias alpha = 1 and beta = 0, with bias alpha = 2 and beta = 3.
\<close>

definition scenario_a :: "nat list \<Rightarrow> fval" where
  "scenario_a = matrix [[pos 1, pos 2], [pos 3, pos 4]]"

definition scenario_b :: "nat list \<Rightarrow> fval" where
  "scenario_b = matrix [[pos 5, pos 6], [pos 7, pos 8]]"

definition scenario_c :: "nat list \<Rightarrow> fval" where
  "scenario_c = matrix [[pos 1, pos 1], [pos 1, pos 1]]"

definition scenario_gemm :: "fval ONNXGemmOp" where
  "scenario_gemm =
    \<lparr>typeA = [Static 2, Static 2], typeB = [Static 2, Static 2], typeC = None,
     alpha = pos 1, beta = pos 0, transA = 0, transB = 0\<rparr>"

definition scenario_gemm_bias :: "fval ONNXGemmOp" where
  "scenario_gemm_bias =
    \<lparr>typeA = [Static 2, Static 2], typeB = [Static 2, Static 2],
     typeC = Some [Static 2, Static 2],
     alpha = pos 2, beta = pos 3, transA = 0, transB = 0\<rparr>"

text \<open>
  Two further instances. The first has a 1 by 1 zero matrix for A, B and C, alpha = -1
  and beta = 1. The second has an empty output: A is 0 by 3, B is 3 by 4 and C is 0 by 4.
\<close>

definition zeros_gemm :: "fval ONNXGemmOp" where
  "zeros_gemm =
    \<lparr>typeA = [Static 1, Static 1], typeB = [Static 1, Static 1],
     typeC = Some [Static 1, Static 1],
     alpha = neg 1, beta = pos 1, transA = 0, transB = 0\<rparr>"

definition empty_gemm :: "fval ONNXGemmOp" where
  "empty_gemm =
    \<lparr>typeA = [Static 0, Static 3], typeB = [Static 3, Static 4],
     typeC = Some [Static 0, Static 4],
     alpha = pos 1, beta = pos 1, transA = 0, transB = 0\<rparr>"

section \<open>Auxiliary facts\<close>

subsection \<open>Sequencing and loops\<close>

lemma run_append:
  "run (fs @ gs) s = (case run fs s of None \<Rightarrow> None | Some t \<Rightarrow> run gs t)"
  by (induction fs arbitrary: s) (auto split: option.splits)

lemma for_loop_append:
  "for_loop (xs @ ys) body s =
     (case for_loop xs body s of None \<Rightarrow> None | Some t \<Rightarrow> for_loop ys body t)"
  by (induction xs arbitrary: s) (auto split: option.splits)

text \<open>The rule for a counted loop: an invariant indexed by the number of iterations done.\<close>

lemma for_loop_upt:
  assumes "I 0 s"
    and "\<And>i t. i < ub \<Longrightarrow> I i t \<Longrightarrow> \<exists>t'. body i t = Some t' \<and> I (Suc i) t'"
  shows "\<exists>s'. for_loop [0..<ub] body s = Some s' \<and> I ub s'"
  using assms(2)
proof (induction ub)
  case 0
  then show ?case using assms(1) by simp
next
  case (Suc ub)
  then obtain t where t: "for_loop [0..<ub] body s = Some t" "I ub t"
    by (metis less_Suc_eq)
  from Suc.prems[of ub t] t obtain t' where "body ub t = Some t'" "I (Suc ub) t'"
    by auto
  with t show ?case by (simp add: for_loop_append)
qed

subsection \<open>Index expressions\<close>

lemma eval_vals_update [simp]: "eval (s\<lparr>vals := v\<rparr>) = eval s"
proof (rule ext)
  fix e show "eval (s\<lparr>vals := v\<rparr>) e = eval s e" by (induction e) simp_all
qed

lemma eval_trace_update [simp]: "eval (s\<lparr>trace := t\<rparr>) = eval s"
proof (rule ext)
  fix e show "eval (s\<lparr>trace := t\<rparr>) e = eval s e" by (induction e) simp_all
qed

lemma evals_frame [simp]:
  "evals (s\<lparr>vals := v\<rparr>) es = evals s es" "evals (s\<lparr>trace := t\<rparr>) es = evals s es"
  by (simp_all add: evals_def)

lemma evals_Nil [simp]: "evals s [] = Some []"
  by (simp add: evals_def)

lemma evals_Cons [simp]:
  "evals s (e # es) =
     (case eval s e of None \<Rightarrow> None | Some x \<Rightarrow> map_option ((#) x) (evals s es))"
  unfolding evals_def by simp

lemma in_bounds_Nil [simp]: "in_bounds [] []"
  by (simp add: in_bounds_def)

lemma in_bounds_Cons [simp]:
  "in_bounds (i # idx) (d # shp) \<longleftrightarrow> i < d \<and> in_bounds idx shp"
  by (simp add: in_bounds_def)

lemma conforms_length: "conforms ty shp \<Longrightarrow> length ty = length shp"
  by (simp add: conforms_def list_all2_lengthD)

lemma eval_getDim:
  assumes "mem s b = Some buf" "conforms ty (shape buf)" "i < length ty"
  shows "eval s (getDim b ty i) = Some (shape buf ! i)"
proof -
  from assms(2) have len: "length ty = length (shape buf)"
    and nth: "case ty ! i of Static c \<Rightarrow> shape buf ! i = c | Dynamic \<Rightarrow> True"
    using assms(3) by (auto simp: conforms_def list_all2_conv_all_nth)
  show ?thesis
    using nth len assms(1,3) by (cases "ty ! i") (simp_all add: getDim_def)
qed

lemma eval_select_gt:
  assumes "eval s d = Some dv" "eval s e = Some ev"
  shows "eval s (select (gt d c) e (Literal z)) = Some (if c < dv then ev else z)"
  using assms by (cases d) auto

subsection \<open>The shape helper and the access function of C\<close>

lemma rank_cases:
  assumes "length (xs :: 'a list) \<le> 2"
  obtains "xs = []" | x where "xs = [x]" | x y where "xs = [x, y]"
proof (cases xs)
  case Nil
  then show ?thesis using that(1) by simp
next
  case (Cons x ys)
  show ?thesis
  proof (cases ys)
    case Nil
    with Cons show ?thesis using that(2) by simp
  next
    case (Cons y zs)
    with \<open>xs = x # ys\<close> assms have "xs = [x, y]" by simp
    then show ?thesis using that(3) by simp
  qed
qed

lemma Compute_well_ranked:
  assumes "well_ranked g"
  shows "\<exists>sh. Compute g = Some sh \<and>
     aDims sh ! 1 = getDim OperandA (typeA g) (if transA g \<noteq> 0 then 0 else 1) \<and>
     dimsForOutput sh = [getDim OperandA (typeA g) (if transA g \<noteq> 0 then 1 else 0),
                         getDim OperandB (typeB g) (if transB g \<noteq> 0 then 0 else 1)] \<and>
     length (aDims sh) = 2 \<and> hasBias sh = (typeC g \<noteq> None)"
  using assms by (cases "typeC g") (auto simp: Compute_def Let_def well_ranked_def)

lemma Compute_bias:
  assumes "Compute g = Some sh" "typeC g = Some tC"
  shows "length tC \<le> 2" "hasBias sh" "cRank sh = int (length tC)"
    "cDims sh = replicate (2 - length tC) (Literal 1) @ map (getDim OperandC tC) [0..<length tC]"
  using assms by (auto simp: Compute_def Let_def split: if_splits)

lemma Compute_no_bias:
  assumes "Compute g = Some sh" "typeC g = None"
  shows "\<not> hasBias sh"
  using assms by (auto simp: Compute_def Let_def split: if_splits)

text \<open>The access function of C, for each rank of C.\<close>

lemma cAccessFct_Compute:
  assumes "Compute g = Some sh" "typeC g = Some tC"
  shows "cAccessFct sh = Some
     (case tC of
        [] \<Rightarrow> []
      | [t] \<Rightarrow> [select (gt (getDim OperandC tC 0) 1) (InductionVar IvM) (Literal 0)]
      | _ \<Rightarrow> [select (gt (getDim OperandC tC 0) 1) (InductionVar IvN) (Literal 0),
              select (gt (getDim OperandC tC 1) 1) (InductionVar IvM) (Literal 0)])"
proof -
  note sh = Compute_bias[OF assms]
  from sh(1) show ?thesis
  proof (cases tC rule: rank_cases)
    case 1
    with sh show ?thesis by (simp add: cAccessFct_def)
  next
    case (2 t)
    with sh show ?thesis
      by (simp add: cAccessFct_def cAccessEntry_def resAccessFct_def)
  next
    case (3 t0 t1)
    have up: "[0..1] = [0, 1::int]" by (simp add: upto_rec1)
    from 3 sh show ?thesis
      by (simp add: cAccessFct_def cAccessEntry_def resAccessFct_def up upt_rec[of 0]
          upt_rec[of 1])
  qed
qed

lemma cAccessFct_eval:
  assumes sh: "Compute g = Some sh" and tC: "typeC g = Some tC"
    and buf: "mem s OperandC = Some bufC" "conforms tC (shape bufC)"
    and iv: "ivs s IvN = Some n" "ivs s IvM = Some m"
  shows "\<exists>cAcc. cAccessFct sh = Some cAcc \<and> evals s cAcc = Some (c_idx (shape bufC) n m)"
proof -
  from buf(2) have len: "length tC = length (shape bufC)" by (rule conforms_length)
  have ev: "\<And>i. i < length tC \<Longrightarrow>
      eval s (getDim OperandC tC i) = Some (shape bufC ! i)"
    using eval_getDim[OF buf] by simp
  note acc = cAccessFct_Compute[OF sh tC]
  from Compute_bias(1)[OF sh tC] show ?thesis
  proof (cases tC rule: rank_cases)
    case 1
    with len acc show ?thesis by (simp add: c_idx_def)
  next
    case (2 t)
    with len obtain d where d: "shape bufC = [d]" by (cases "shape bufC") auto
    have "eval s (select (gt (getDim OperandC tC 0) 1) (InductionVar IvM) (Literal 0))
        = Some (if 1 < d then m else 0)"
      using eval_select_gt[OF ev[of 0], of "InductionVar IvM" m 1 0] 2 iv(2) d by simp
    with 2 d acc show ?thesis by (simp add: c_idx_def)
  next
    case (3 t0 t1)
    with len obtain d0 d1 where d: "shape bufC = [d0, d1]"
      by (cases "shape bufC"; cases "tl (shape bufC)") auto
    have e0: "eval s (select (gt (getDim OperandC tC 0) 1) (InductionVar IvN) (Literal 0))
        = Some (if 1 < d0 then n else 0)"
      using eval_select_gt[OF ev[of 0], of "InductionVar IvN" n 1 0] 3 iv(1) d by simp
    have e1: "eval s (select (gt (getDim OperandC tC 1) 1) (InductionVar IvM) (Literal 0))
        = Some (if 1 < d1 then m else 0)"
      using eval_select_gt[OF ev[of 1], of "InductionVar IvM" m 1 0] 3 iv(2) d by simp
    from 3 d acc e0 e1 show ?thesis by (simp add: c_idx_def)
  qed
qed

lemma c_idx_in_bounds:
  assumes "broadcastable sc N M" "n < N" "m < M"
  shows "in_bounds (c_idx sc n m) sc"
  using assms
  by (auto simp: broadcastable_def c_idx_def in_bounds_def split: list.splits)

text \<open>The code that is emitted for an operator of accepted ranks.\<close>

lemma matchAndRewrite_well_ranked:
  assumes "well_ranked g"
  shows "\<exists>sh cAcc. Compute g = Some sh \<and> cAccessFct sh = Some cAcc \<and>
     matchAndRewrite et g = Some
       [AllocOp Alloc (dimsForOutput sh),
        ConstantOp Val_alpha (alpha g), ConstantOp Val_beta (beta g),
        ConstantOp Val_zero (constant0 et),
        KrnlIterateOp [IvN, IvM] (dimsForOutput sh) (outerBody sh g cAcc)]"
proof -
  from Compute_well_ranked[OF assms] obtain sh where sh: "Compute g = Some sh"
    and len: "length (dimsForOutput sh) = 2" "length (aDims sh) = 2" by auto
  have "\<exists>cAcc. cAccessFct sh = Some cAcc"
  proof (cases "typeC g")
    case None
    from Compute_no_bias[OF sh None] show ?thesis by (simp add: cAccessFct_def)
  next
    case (Some tC)
    from cAccessFct_Compute[OF sh Some] show ?thesis by blast
  qed
  then obtain cAcc where "cAccessFct sh = Some cAcc" ..
  with sh len show ?thesis by (simp add: matchAndRewrite_def lowerGemm_def)
qed

lemma matchAndRewrite_None:
  assumes "\<not> well_ranked g"
  shows "matchAndRewrite et g = None"
  using assms
  by (auto simp: matchAndRewrite_def Compute_def well_ranked_def Let_def split: option.splits)

subsection \<open>The reduction loop\<close>

lemma acc_upto_0: "acc_upto et tA tB a b n m 0 = constant0 et"
  by (simp add: acc_upto_def)

lemma acc_upto_Suc:
  "acc_upto et tA tB a b n m (Suc k) =
     addf et (acc_upto et tA tB a b n m k) (mulf et (a (a_idx tA n k)) (b (b_idx tB k m)))"
  by (simp add: acc_upto_def)

lemma inner_step:
  assumes "inner_inv et g (memref_of (a_shape (transA g) N K) a)
             (memref_of (b_shape (transB g) K M) b) bufC out n m acc tr s"
    and "n < N" "m < M" "k < K"
  shows "\<exists>s'. run (map (exec et) (innerBody g)) (s\<lparr>ivs := (ivs s)(IvK \<mapsto> k)\<rparr>) = Some s' \<and>
     inner_inv et g (memref_of (a_shape (transA g) N K) a)
       (memref_of (b_shape (transB g) K M) b) bufC out n m
       (addf et acc (mulf et (a (a_idx (transA g) n k)) (b (b_idx (transB g) k m))))
       (tr @ [Load OperandA (a_idx (transA g) n k), Load OperandB (b_idx (transB g) k m),
              Load ReductionVal [],
              Store ReductionVal []
                (addf et acc (mulf et (a (a_idx (transA g) n k)) (b (b_idx (transB g) k m))))])
       s'"
  using assms
  by (simp add: inner_inv_def frame_def innerBody_def load_def store_def binop_def
      aAccessFct_def bAccessFct_def memref_of_def a_idx_def b_idx_def a_shape_def
      b_shape_def)

lemma inner_loop:
  assumes "inner_inv et g (memref_of (a_shape (transA g) N K) a)
             (memref_of (b_shape (transB g) K M) b) bufC out n m (constant0 et) tr s"
    and "n < N" "m < M"
  shows "\<exists>s'. iterate [IvK] [K] (run (map (exec et) (innerBody g))) s = Some s' \<and>
     inner_inv et g (memref_of (a_shape (transA g) N K) a)
       (memref_of (b_shape (transB g) K M) b) bufC out n m
       (acc_upto et (transA g) (transB g) a b n m K)
       (tr @ concat (map (inner_events et (transA g) (transB g) a b n m) [0..<K])) s'"
proof -
  let ?I = "\<lambda>k. inner_inv et g (memref_of (a_shape (transA g) N K) a)
       (memref_of (b_shape (transB g) K M) b) bufC out n m
       (acc_upto et (transA g) (transB g) a b n m k)
       (tr @ concat (map (inner_events et (transA g) (transB g) a b n m) [0..<k]))"
  let ?body = "\<lambda>i t. iterate [] [] (run (map (exec et) (innerBody g)))
                 (t\<lparr>ivs := (ivs t)(IvK \<mapsto> i)\<rparr>)"
  have "\<exists>s'. for_loop [0..<K] ?body s = Some s' \<and> ?I K s'"
  proof (rule for_loop_upt[where I = ?I])
    show "?I 0 s" using assms(1) by (simp add: acc_upto_0)
  next
    fix k t assume k: "k < K" and t: "?I k t"
    from inner_step[OF t assms(2,3) k]
    show "\<exists>t'. ?body k t = Some t' \<and> ?I (Suc k) t'"
      by (simp add: acc_upto_Suc inner_events_def)
  qed
  then show ?thesis by simp
qed

subsection \<open>The body of the output loops\<close>

lemma valid_lengths:
  assumes "valid_instance g N M K cOpt"
  shows "length (typeA g) = 2" "length (typeB g) = 2"
  using assms conforms_length[of "typeA g" "a_shape (transA g) N K"]
    conforms_length[of "typeB g" "b_shape (transB g) K M"]
  by (auto simp: valid_instance_def a_shape_def b_shape_def split: if_splits)

lemma valid_bias:
  assumes "valid_instance g N M K (Some (sc, c))"
  obtains tC where "typeC g = Some tC" "conforms tC sc" "broadcastable sc N M"
  using assms by (auto simp: valid_instance_def split: option.splits)

lemma valid_no_bias:
  assumes "valid_instance g N M K None"
  shows "typeC g = None"
  using assms by (auto simp: valid_instance_def split: option.splits)

lemma valid_well_ranked:
  assumes "valid_instance g N M K cOpt"
  shows "well_ranked g"
proof (cases cOpt)
  case None
  with assms have "typeC g = None" by (simp add: valid_no_bias)
  with valid_lengths[OF assms] show ?thesis
    by (simp add: well_ranked_def)
next
  case (Some p)
  obtain sc c where p: "p = (sc, c)" by (cases p)
  from assms Some p obtain tC where tC: "typeC g = Some tC" "conforms tC sc"
    "broadcastable sc N M"
    by (auto elim: valid_bias)
  then have "length tC \<le> 2"
    using conforms_length[of tC sc] by (auto simp: broadcastable_def split: list.splits)
  with tC valid_lengths[OF assms] show ?thesis by (simp add: well_ranked_def)
qed

lemma bound_evals:
  assumes "valid_instance g N M K cOpt"
    and A: "mem s OperandA = Some (memref_of (a_shape (transA g) N K) a)"
    and B: "mem s OperandB = Some (memref_of (b_shape (transB g) K M) b)"
  shows "eval s (getDim OperandA (typeA g) (if transA g \<noteq> 0 then 0 else 1)) = Some K"
    and "eval s (getDim OperandA (typeA g) (if transA g \<noteq> 0 then 1 else 0)) = Some N"
    and "eval s (getDim OperandB (typeB g) (if transB g \<noteq> 0 then 0 else 1)) = Some M"
proof -
  have cA: "conforms (typeA g) (shape (memref_of (a_shape (transA g) N K) a))"
    and cB: "conforms (typeB g) (shape (memref_of (b_shape (transB g) K M) b))"
    using assms(1) by (simp_all add: valid_instance_def memref_of_def)
  note l = valid_lengths[OF assms(1)]
  show "eval s (getDim OperandA (typeA g) (if transA g \<noteq> 0 then 0 else 1)) = Some K"
    using eval_getDim[OF A cA, of "if transA g \<noteq> 0 then 0 else 1"] l
    by (simp add: memref_of_def a_shape_def)
  show "eval s (getDim OperandA (typeA g) (if transA g \<noteq> 0 then 1 else 0)) = Some N"
    using eval_getDim[OF A cA, of "if transA g \<noteq> 0 then 1 else 0"] l
    by (simp add: memref_of_def a_shape_def)
  show "eval s (getDim OperandB (typeB g) (if transB g \<noteq> 0 then 0 else 1)) = Some M"
    using eval_getDim[OF B cB, of "if transB g \<noteq> 0 then 0 else 1"] l
    by (simp add: memref_of_def b_shape_def)
qed

lemma outer_step:
  fixes et :: "'c ElementType"
  assumes valid: "valid_instance g N M K cOpt"
    and sh: "Compute g = Some sh"
    and cAcc: "cAccessFct sh = Some cAcc"
    and fr: "frame et g (memref_of (a_shape (transA g) N K) a)
               (memref_of (b_shape (transB g) K M) b) (bufferC cOpt) s"
    and out: "mem s Alloc = Some out" "shape out = [N, M]"
    and iv: "ivs s IvN = Some n" "ivs s IvM = Some m"
    and lt: "n < N" "m < M"
  shows "\<exists>s'. run (map (exec et) (outerBody sh g cAcc)) s = Some s' \<and>
     frame et g (memref_of (a_shape (transA g) N K) a)
       (memref_of (b_shape (transB g) K M) b) (bufferC cOpt) s' \<and>
     mem s' Alloc = Some (out\<lparr>elems := (elems out)([n, m] \<mapsto> gemm_val et g a b cOpt K n m)\<rparr>) \<and>
     ivs s' IvN = Some n \<and>
     trace s' = trace s @ elem_events et g a b cOpt K n m"
proof -
  let ?A = "memref_of (a_shape (transA g) N K) a"
  let ?B = "memref_of (b_shape (transB g) K M) b"
  let ?tr = "trace s @ [Store ReductionVal [] (constant0 et)]"
  from Compute_well_ranked[OF valid_well_ranked[OF valid]] sh
  have shf: "aDims sh ! 1 = getDim OperandA (typeA g) (if transA g \<noteq> 0 then 0 else 1)"
    "hasBias sh = (typeC g \<noteq> None)"
    by auto
  \<comment> \<open>the alloca and the store of zero\<close>
  obtain s1 where
    s1: "run (map (exec et) [AllocaOp ReductionVal, KrnlStoreOp Val_zero ReductionVal []]) s
           = Some s1"
    and inv1: "inner_inv et g ?A ?B (bufferC cOpt) out n m (constant0 et) ?tr s1"
    using fr out iv
    by (simp add: inner_inv_def frame_def alloc_buffer_def store_def)
  \<comment> \<open>the reduction loop\<close>
  from inv1 have fr1: "frame et g ?A ?B (bufferC cOpt) s1" by (simp add: inner_inv_def)
  have bK: "evals s1 [aDims sh ! 1] = Some [K]"
    using bound_evals(1)[OF valid, of s1 a b] fr1 shf by (simp add: frame_def)
  from inner_loop[OF inv1 lt] obtain s2 where
    s2: "iterate [IvK] [K] (run (map (exec et) (innerBody g))) s1 = Some s2"
    and inv2: "inner_inv et g ?A ?B (bufferC cOpt) out n m
       (acc_upto et (transA g) (transB g) a b n m K)
       (?tr @ concat (map (inner_events et (transA g) (transB g) a b n m) [0..<K])) s2"
    by blast
  have loop: "exec et (KrnlIterateOp [IvK] [aDims sh ! 1] (innerBody g)) s1 = Some s2"
    using bK s2 by simp
  \<comment> \<open>the operations after the loop\<close>
  let ?rest = "[KrnlLoadOp Val_loadedAB ReductionVal [],
     MulFOp Val_alphaAB Val_alpha Val_loadedAB] @
    (if hasBias sh
     then [KrnlLoadOp Val_loadedC OperandC cAcc,
           MulFOp Val_betaC Val_beta Val_loadedC,
           AddFOp Val_Y Val_alphaAB Val_betaC,
           KrnlStoreOp Val_Y Alloc resAccessFct]
     else [KrnlStoreOp Val_alphaAB Alloc resAccessFct])"
  have rest: "\<exists>s'. run (map (exec et) ?rest) s2 = Some s' \<and>
     frame et g ?A ?B (bufferC cOpt) s' \<and>
     mem s' Alloc = Some (out\<lparr>elems := (elems out)([n, m] \<mapsto> gemm_val et g a b cOpt K n m)\<rparr>) \<and>
     ivs s' IvN = Some n \<and>
     trace s' = trace s @ elem_events et g a b cOpt K n m"
  proof (cases cOpt)
    case None
    with valid have "typeC g = None" by (simp add: valid_no_bias)
    with shf have nb: "\<not> hasBias sh" by simp
    show ?thesis using inv2 nb None out(2) lt
      by (simp add: inner_inv_def frame_def load_def store_def binop_def
          resAccessFct_def gemm_val_def elem_events_def)
  next
    case (Some p)
    obtain sc c where p: "p = (sc, c)" by (cases p)
    from valid Some p obtain tC where tC: "typeC g = Some tC" "conforms tC sc"
      "broadcastable sc N M"
      by (auto elim: valid_bias)
    with shf have hb: "hasBias sh" by simp
    from inv2 Some p have mC: "mem s2 OperandC = Some (memref_of sc c)"
      and iv2: "ivs s2 IvN = Some n" "ivs s2 IvM = Some m"
      by (simp_all add: inner_inv_def frame_def bufferC_def)
    have "conforms tC (shape (memref_of sc c))" using tC(2) by (simp add: memref_of_def)
    from cAccessFct_eval[OF sh tC(1) mC this iv2] cAcc
    have ec: "evals s2 cAcc = Some (c_idx sc n m)" by (simp add: memref_of_def)
    note ib = c_idx_in_bounds[OF tC(3) lt]
    show ?thesis using inv2 hb Some p out(2) lt mC
      by (simp add: inner_inv_def frame_def load_def store_def binop_def
          resAccessFct_def gemm_val_def elem_events_def bufferC_def ec ib memref_of_def)
  qed
  then obtain s' where s': "run (map (exec et) ?rest) s2 = Some s'"
    and post: "frame et g ?A ?B (bufferC cOpt) s'"
     "mem s' Alloc = Some (out\<lparr>elems := (elems out)([n, m] \<mapsto> gemm_val et g a b cOpt K n m)\<rparr>)"
     "ivs s' IvN = Some n"
     "trace s' = trace s @ elem_events et g a b cOpt K n m"
    by blast
  have "outerBody sh g cAcc =
      [AllocaOp ReductionVal, KrnlStoreOp Val_zero ReductionVal []] @
      [KrnlIterateOp [IvK] [aDims sh ! 1] (innerBody g)] @ ?rest"
    by (simp add: outerBody_def)
  then have "run (map (exec et) (outerBody sh g cAcc)) s = Some s'"
    using s1 loop s' by (simp only: map_append run_append) simp
  with post show ?thesis by blast
qed

subsection \<open>The output loops\<close>

lemma outer_inv_ivs [simp]:
  "outer_inv et g a b cOpt N M K n m (s\<lparr>ivs := v\<rparr>) = outer_inv et g a b cOpt N M K n m s"
  by (simp add: outer_inv_def frame_def)

lemma outer_inv_step:
  assumes valid: "valid_instance g N M K cOpt"
    and sh: "Compute g = Some sh"
    and cAcc: "cAccessFct sh = Some cAcc"
    and inv: "outer_inv et g a b cOpt N M K n m s"
    and iv: "ivs s IvN = Some n" "ivs s IvM = Some m"
    and lt: "n < N" "m < M"
  shows "\<exists>s'. run (map (exec et) (outerBody sh g cAcc)) s = Some s' \<and>
     outer_inv et g a b cOpt N M K n (Suc m) s' \<and> ivs s' IvN = Some n"
proof -
  let ?A = "memref_of (a_shape (transA g) N K) a"
  let ?B = "memref_of (b_shape (transB g) K M) b"
  from inv obtain out where
    fr: "frame et g ?A ?B (bufferC cOpt) s"
    and out: "mem s Alloc = Some out" "shape out = [N, M]"
    and el: "\<And>n' m'. n' < N \<Longrightarrow> m' < M \<Longrightarrow> (n' < n \<or> n' = n \<and> m' < m) \<Longrightarrow>
           elems out [n', m'] = Some (gemm_val et g a b cOpt K n' m')"
    and tr: "trace s = gemm_events et g a b cOpt n M K @
               concat (map (elem_events et g a b cOpt K n) [0..<m])"
    by (auto simp: outer_inv_def)
  let ?out = "out\<lparr>elems := (elems out)([n, m] \<mapsto> gemm_val et g a b cOpt K n m)\<rparr>"
  from outer_step[OF valid sh cAcc fr out iv lt] obtain s' where
    s': "run (map (exec et) (outerBody sh g cAcc)) s = Some s'"
    and fr': "frame et g ?A ?B (bufferC cOpt) s'"
    and out': "mem s' Alloc = Some ?out"
    and iv': "ivs s' IvN = Some n"
    and tr': "trace s' = trace s @ elem_events et g a b cOpt K n m"
    by blast
  have "outer_inv et g a b cOpt N M K n (Suc m) s'"
    unfolding outer_inv_def
  proof (intro conjI exI)
    show "mem s' Alloc = Some ?out" by (rule out')
    show "shape ?out = [N, M]" using out(2) by simp
    show "\<forall>n' m'. n' < N \<and> m' < M \<and> (n' < n \<or> n' = n \<and> m' < Suc m) \<longrightarrow>
       elems ?out [n', m'] = Some (gemm_val et g a b cOpt K n' m')"
      using el by (auto simp: less_Suc_eq)
    show "trace s' = gemm_events et g a b cOpt n M K @
               concat (map (elem_events et g a b cOpt K n) [0..<Suc m])"
      using tr tr' by simp
  qed (rule fr')
  with s' iv' show ?thesis by blast
qed

lemma row_loop:
  assumes valid: "valid_instance g N M K cOpt"
    and sh: "Compute g = Some sh"
    and cAcc: "cAccessFct sh = Some cAcc"
    and inv: "outer_inv et g a b cOpt N M K n 0 s"
    and lt: "n < N"
  shows "\<exists>s'. iterate [IvM] [M] (run (map (exec et) (outerBody sh g cAcc)))
            (s\<lparr>ivs := (ivs s)(IvN \<mapsto> n)\<rparr>) = Some s' \<and>
     outer_inv et g a b cOpt N M K (Suc n) 0 s'"
proof -
  let ?body = "\<lambda>i t. iterate [] [] (run (map (exec et) (outerBody sh g cAcc)))
                  (t\<lparr>ivs := (ivs t)(IvM \<mapsto> i)\<rparr>)"
  let ?I = "\<lambda>m t. outer_inv et g a b cOpt N M K n m t \<and> ivs t IvN = Some n"
  let ?s = "s\<lparr>ivs := (ivs s)(IvN \<mapsto> n)\<rparr>"
  have "\<exists>s'. for_loop [0..<M] ?body ?s = Some s' \<and> ?I M s'"
  proof (rule for_loop_upt[where I = ?I])
    show "?I 0 ?s" using inv by simp
  next
    fix m t assume m: "m < M" and t: "?I m t"
    let ?t = "t\<lparr>ivs := (ivs t)(IvM \<mapsto> m)\<rparr>"
    from t have "outer_inv et g a b cOpt N M K n m ?t" "ivs ?t IvN = Some n"
      "ivs ?t IvM = Some m"
      by simp_all
    from outer_inv_step[OF valid sh cAcc this lt m]
    show "\<exists>t'. ?body m t = Some t' \<and> ?I (Suc m) t'" by simp
  qed
  then obtain s' where s': "for_loop [0..<M] ?body ?s = Some s'"
    and I: "outer_inv et g a b cOpt N M K n M s'" by blast
  have "outer_inv et g a b cOpt N M K (Suc n) 0 s'"
    using I by (auto simp: outer_inv_def gemm_events_def row_events_def less_Suc_eq)
  with s' show ?thesis by simp
qed

lemma output_loops:
  assumes valid: "valid_instance g N M K cOpt"
    and sh: "Compute g = Some sh"
    and cAcc: "cAccessFct sh = Some cAcc"
    and inv: "outer_inv et g a b cOpt N M K 0 0 s"
  shows "\<exists>s'. iterate [IvN, IvM] [N, M] (run (map (exec et) (outerBody sh g cAcc))) s
            = Some s' \<and>
     outer_inv et g a b cOpt N M K N 0 s'"
proof -
  let ?body = "\<lambda>i t. iterate [IvM] [M] (run (map (exec et) (outerBody sh g cAcc)))
                  (t\<lparr>ivs := (ivs t)(IvN \<mapsto> i)\<rparr>)"
  let ?I = "\<lambda>n t. outer_inv et g a b cOpt N M K n 0 t"
  have "\<exists>s'. for_loop [0..<N] ?body s = Some s' \<and> ?I N s'"
  proof (rule for_loop_upt[where I = ?I])
    show "?I 0 s" by (rule inv)
  next
    fix n t assume "n < N" "?I n t"
    from row_loop[OF valid sh cAcc this(2,1)]
    show "\<exists>t'. ?body n t = Some t' \<and> ?I (Suc n) t'" .
  qed
  then show ?thesis by simp
qed

subsection \<open>The whole run\<close>

text \<open>
  On a validated instance the lowering succeeds, the emitted code runs to the end, the
  output has the shape \<open>N\<close> by \<open>M\<close>, every element holds its value and the accesses are
  those of the reference.
\<close>

lemma gemm_run:
  fixes et :: "'c ElementType"
  assumes valid: "valid_instance g N M K cOpt"
  shows "\<exists>s' out.
     lowered_run et g (memref_of (a_shape (transA g) N K) a)
       (memref_of (b_shape (transB g) K M) b) (bufferC cOpt) = Some s' \<and>
     mem s' Alloc = Some out \<and> shape out = [N, M] \<and>
     (\<forall>n m. n < N \<and> m < M \<longrightarrow> elems out [n, m] = Some (gemm_val et g a b cOpt K n m)) \<and>
     trace s' = gemm_events et g a b cOpt N M K"
proof -
  let ?A = "memref_of (a_shape (transA g) N K) a"
  let ?B = "memref_of (b_shape (transB g) K M) b"
  let ?s0 = "initial ?A ?B (bufferC cOpt)"
  note wr = valid_well_ranked[OF valid]
  from matchAndRewrite_well_ranked[OF wr, of et] obtain sh cAcc where
    sh: "Compute g = Some sh" and cAcc: "cAccessFct sh = Some cAcc"
    and ops: "matchAndRewrite et g = Some
       [AllocOp Alloc (dimsForOutput sh),
        ConstantOp Val_alpha (alpha g), ConstantOp Val_beta (beta g),
        ConstantOp Val_zero (constant0 et),
        KrnlIterateOp [IvN, IvM] (dimsForOutput sh) (outerBody sh g cAcc)]"
    by blast
  from Compute_well_ranked[OF wr] sh
  have dims: "dimsForOutput sh =
      [getDim OperandA (typeA g) (if transA g \<noteq> 0 then 1 else 0),
       getDim OperandB (typeB g) (if transB g \<noteq> 0 then 0 else 1)]"
    by auto
  let ?loop = "KrnlIterateOp [IvN, IvM] (dimsForOutput sh) (outerBody sh g cAcc)"
  let ?pre = "[AllocOp Alloc (dimsForOutput sh), ConstantOp Val_alpha (alpha g),
               ConstantOp Val_beta (beta g), ConstantOp Val_zero (constant0 et)]"
  have ev: "evals s (dimsForOutput sh) = Some [N, M]"
    if "mem s OperandA = Some ?A" "mem s OperandB = Some ?B" for s :: "'c State"
    unfolding dims using bound_evals(2,3)[OF valid that] by (simp split del: if_split)
  have ev0: "evals ?s0 (dimsForOutput sh) = Some [N, M]"
    by (rule ev) (simp_all add: initial_def)
  obtain s1 where s1: "run (map (exec et) ?pre) ?s0 = Some s1"
    and inv1: "outer_inv et g a b cOpt N M K 0 0 s1"
    using ev0
    by (simp add: alloc_buffer_def outer_inv_def frame_def initial_def gemm_events_def)
  from inv1 have "evals s1 (dimsForOutput sh) = Some [N, M]"
    by (intro ev) (simp_all add: outer_inv_def frame_def)
  moreover from output_loops[OF valid sh cAcc inv1] obtain s' where
    s': "iterate [IvN, IvM] [N, M] (run (map (exec et) (outerBody sh g cAcc))) s1 = Some s'"
    and inv': "outer_inv et g a b cOpt N M K N 0 s'" by blast
  ultimately have loop: "exec et ?loop s1 = Some s'" by simp
  have "execute et (?pre @ [?loop]) ?s0 = Some s'"
    unfolding execute_def using s1 loop by (simp only: map_append run_append) simp
  with ops have run: "lowered_run et g ?A ?B (bufferC cOpt) = Some s'"
    by (simp add: lowered_run_def)
  from inv' obtain out where "mem s' Alloc = Some out" "shape out = [N, M]"
    "\<forall>n m. n < N \<and> m < M \<longrightarrow> elems out [n, m] = Some (gemm_val et g a b cOpt K n m)"
    "trace s' = gemm_events et g a b cOpt N M K"
    by (auto simp: outer_inv_def)
  with run show ?thesis by blast
qed

lemma stored_at_gemm:
  assumes "valid_instance g N M K cOpt" "n < N" "m < M"
  shows "stored_at et g (memref_of (a_shape (transA g) N K) a)
       (memref_of (b_shape (transB g) K M) b) (bufferC cOpt) [n, m]
     = Some (gemm_val et g a b cOpt K n m)"
  using gemm_run[OF assms(1), of et a b] assms(2,3) by (auto simp: stored_at_def)

lemma accesses_gemm:
  assumes "valid_instance g N M K cOpt"
  shows "accesses et g (memref_of (a_shape (transA g) N K) a)
       (memref_of (b_shape (transB g) K M) b) (bufferC cOpt)
     = Some (gemm_events et g a b cOpt N M K)"
  using gemm_run[OF assms(1), of et a b] by (auto simp: accesses_def)

subsection \<open>Loads in a list of accesses\<close>

lemma loads_from_append: "loads_from bs (es @ fs) = loads_from bs es @ loads_from bs fs"
  by (induction bs es rule: loads_from.induct) simp_all

lemma loads_from_concat: "loads_from bs (concat ess) = concat (map (loads_from bs) ess)"
  by (induction ess) (simp_all add: loads_from_append)

text \<open>The operand reads of a run are one read of A and one of B for every reduction step.\<close>

lemma operand_loads_elem:
  "loads_from [OperandA, OperandB] (elem_events et g a b cOpt K n m) =
     concat (map (\<lambda>k. [(OperandA, a_idx (transA g) n k), (OperandB, b_idx (transB g) k m)])
       [0..<K])"
  by (simp add: elem_events_def loads_from_append loads_from_concat inner_events_def
      comp_def split: option.splits prod.splits)

lemma operand_loads_gemm:
  "loads_from [OperandA, OperandB] (gemm_events et g a b cOpt N M K) =
     concat (map (\<lambda>n. concat (map (\<lambda>m. concat (map (\<lambda>k.
         [(OperandA, a_idx (transA g) n k), (OperandB, b_idx (transB g) k m)])
       [0..<K])) [0..<M])) [0..<N])"
  by (simp add: gemm_events_def row_events_def loads_from_concat comp_def operand_loads_elem)

lemma foldl_upt_2: "foldl f z [0..<2] = f (f z 0) 1"
  by (simp add: numeral_2_eq_2)

text \<open>
  In exact arithmetic the accumulation of the reduction loop, from zero and in the order
  of \<open>k\<close>, is the sum over \<open>k\<close>.
\<close>

lemma accumulation_is_sum:
  fixes f :: "nat \<Rightarrow> 'a::comm_monoid_add"
  shows "foldl (\<lambda>acc k. acc + f k) 0 [0..<K] = (\<Sum>k<K. f k)"
  by (induction K) (simp_all add: add.commute)

subsection \<open>The accesses and the loop structure, written out\<close>

lemma gemm_events_unfold:
  "gemm_events et g a b cOpt N M K =
     concat (map (\<lambda>n. concat (map (\<lambda>m.
         Store ReductionVal [] (constant0 et) #
         concat (map (\<lambda>k.
             [Load OperandA (a_idx (transA g) n k), Load OperandB (b_idx (transB g) k m),
              Load ReductionVal [],
              Store ReductionVal []
                (addf et (acc_upto et (transA g) (transB g) a b n m k)
                   (mulf et (a (a_idx (transA g) n k)) (b (b_idx (transB g) k m))))])
           [0..<K]) @
         Load ReductionVal [] #
         (case cOpt of None \<Rightarrow> [] | Some (sc, c) \<Rightarrow> [Load OperandC (c_idx sc n m)]) @
         [Store Alloc [n, m] (gemm_val et g a b cOpt K n m)])
       [0..<M])) [0..<N])"
proof -
  have inner: "inner_events et (transA g) (transB g) a b n m =
      (\<lambda>k. [Load OperandA (a_idx (transA g) n k), Load OperandB (b_idx (transB g) k m),
              Load ReductionVal [],
              Store ReductionVal []
                (addf et (acc_upto et (transA g) (transB g) a b n m k)
                   (mulf et (a (a_idx (transA g) n k)) (b (b_idx (transB g) k m))))])"
    for n m
    by (rule ext) (simp add: inner_events_def acc_upto_Suc)
  have elem: "elem_events et g a b cOpt K n =
      (\<lambda>m. Store ReductionVal [] (constant0 et) #
         concat (map (inner_events et (transA g) (transB g) a b n m) [0..<K]) @
         Load ReductionVal [] #
         (case cOpt of None \<Rightarrow> [] | Some (sc, c) \<Rightarrow> [Load OperandC (c_idx sc n m)]) @
         [Store Alloc [n, m] (gemm_val et g a b cOpt K n m)])"
    for n
    by (rule ext) (simp add: elem_events_def)
  have row: "row_events et g a b cOpt M K =
      (\<lambda>n. concat (map (elem_events et g a b cOpt K n) [0..<M]))"
    by (rule ext) (simp add: row_events_def)
  show ?thesis
    unfolding gemm_events_def row elem inner ..
qed

lemma emitted_nests_well_ranked:
  assumes "well_ranked g"
  shows "emitted_nests et g = Some
     [Nest [IvN, IvM]
        [getDim OperandA (typeA g) (if transA g \<noteq> 0 then 1 else 0),
         getDim OperandB (typeB g) (if transB g \<noteq> 0 then 0 else 1)]
        [Nest [IvK] [getDim OperandA (typeA g) (if transA g \<noteq> 0 then 0 else 1)] []]]"
proof -
  from matchAndRewrite_well_ranked[OF assms, of et] obtain sh cAcc where
    sh: "Compute g = Some sh"
    and ops: "matchAndRewrite et g = Some
       [AllocOp Alloc (dimsForOutput sh),
        ConstantOp Val_alpha (alpha g), ConstantOp Val_beta (beta g),
        ConstantOp Val_zero (constant0 et),
        KrnlIterateOp [IvN, IvM] (dimsForOutput sh) (outerBody sh g cAcc)]"
    by blast
  from Compute_well_ranked[OF assms] sh
  have "aDims sh ! 1 = getDim OperandA (typeA g) (if transA g \<noteq> 0 then 0 else 1)"
    "dimsForOutput sh = [getDim OperandA (typeA g) (if transA g \<noteq> 0 then 1 else 0),
                         getDim OperandB (typeB g) (if transB g \<noteq> 0 then 0 else 1)]"
    by auto
  with ops show ?thesis
    by (cases "hasBias sh")
      (simp_all add: emitted_nests_def outerBody_def innerBody_def split del: if_split)
qed

text \<open>The load operations of the emitted code, for each operand.\<close>

lemma emitted_loads_well_ranked:
  assumes "well_ranked g"
  shows "\<exists>sh cAcc. Compute g = Some sh \<and> cAccessFct sh = Some cAcc \<and>
     emitted_loads et g OperandA = Some [aAccessFct (transA g)] \<and>
     emitted_loads et g OperandB = Some [bAccessFct (transB g)] \<and>
     emitted_loads et g OperandC = Some (if hasBias sh then [cAcc] else [])"
proof -
  from matchAndRewrite_well_ranked[OF assms, of et] obtain sh cAcc where
    sh: "Compute g = Some sh" and cAcc: "cAccessFct sh = Some cAcc"
    and ops: "matchAndRewrite et g = Some
       [AllocOp Alloc (dimsForOutput sh),
        ConstantOp Val_alpha (alpha g), ConstantOp Val_beta (beta g),
        ConstantOp Val_zero (constant0 et),
        KrnlIterateOp [IvN, IvM] (dimsForOutput sh) (outerBody sh g cAcc)]"
    by blast
  have "emitted_loads et g OperandA = Some [aAccessFct (transA g)]"
    "emitted_loads et g OperandB = Some [bAccessFct (transB g)]"
    "emitted_loads et g OperandC = Some (if hasBias sh then [cAcc] else [])"
    using ops
    by (cases "hasBias sh"; simp add: emitted_loads_def outerBody_def innerBody_def)+
  with sh cAcc show ?thesis by blast
qed

section \<open>The claims\<close>

text \<open>
  Claim C1. On every validated instance with \<open>transA = 0\<close>, \<open>transB = 0\<close> and no bias
  operand the emitted code runs to the end and the element of the output at \<open>(n, m)\<close>,
  for every \<open>n\<close> below the number of rows and \<open>m\<close> below the number of columns, is alpha
  times the sum over \<open>k\<close> of \<open>A[n,k] * B[k,m]\<close>. The sum is the one the loop computes: it
  starts from the zero constant and adds the products in the order of \<open>k\<close>. In the
  scenario A = [[1,2],[3,4]], B = [[5,6],[7,8]], alpha = 1, beta = 0 the output is
  [[19,22],[43,50]].
\<close>

theorem C1_output_without_bias:
  "(transA g = 0 \<and> transB g = 0 \<and> typeC g = None \<and>
    conforms (typeA g) [N, K] \<and> conforms (typeB g) [K, M] \<and> n < N \<and> m < M \<longrightarrow>
    stored_at et g (memref_of [N, K] a) (memref_of [K, M] b) None [n, m] =
      Some (mulf et (alpha g)
             (foldl (\<lambda>acc k. addf et acc (mulf et (a [n, k]) (b [k, m])))
                (constant0 et) [0..<K]))) \<and>
   stored_at f32 scenario_gemm (memref_of [2, 2] scenario_a) (memref_of [2, 2] scenario_b)
     None [0, 0] = Some (pos 19) \<and>
   stored_at f32 scenario_gemm (memref_of [2, 2] scenario_a) (memref_of [2, 2] scenario_b)
     None [0, 1] = Some (pos 22) \<and>
   stored_at f32 scenario_gemm (memref_of [2, 2] scenario_a) (memref_of [2, 2] scenario_b)
     None [1, 0] = Some (pos 43) \<and>
   stored_at f32 scenario_gemm (memref_of [2, 2] scenario_a) (memref_of [2, 2] scenario_b)
     None [1, 1] = Some (pos 50)"
  (is "?general \<and> ?s00 \<and> ?s01 \<and> ?s10 \<and> ?s11")
proof -
  have general: "stored_at et g (memref_of [N, K] a) (memref_of [K, M] b) None [n, m] =
      Some (mulf et (alpha g)
             (foldl (\<lambda>acc k. addf et acc (mulf et (a [n, k]) (b [k, m])))
                (constant0 et) [0..<K]))"
    if "transA g = 0" "transB g = 0" "typeC g = None"
      "conforms (typeA g) [N, K]" "conforms (typeB g) [K, M]" "n < N" "m < M"
    for et :: "'c ElementType" and g N K M n m a b
  proof -
    from that have "valid_instance g N M K None"
      by (simp add: valid_instance_def a_shape_def b_shape_def)
    from stored_at_gemm[OF this that(6,7), of et a b] that(1,2) show ?thesis
      by (simp add: bufferC_def a_shape_def b_shape_def gemm_val_def acc_upto_def
          a_idx_def b_idx_def)
  qed
  have sc: "transA scenario_gemm = 0" "transB scenario_gemm = 0" "typeC scenario_gemm = None"
    "conforms (typeA scenario_gemm) [2, 2]" "conforms (typeB scenario_gemm) [2, 2]"
    by (simp_all add: scenario_gemm_def conforms_def)
  note ev = foldl_upt_2 scenario_gemm_def scenario_a_def scenario_b_def matrix_def f32_def
    pos_def
  have ?s00 using general[OF sc, of 0 0 f32 scenario_a scenario_b] by (simp add: ev)
  moreover have ?s01 using general[OF sc, of 0 1 f32 scenario_a scenario_b] by (simp add: ev)
  moreover have ?s10 using general[OF sc, of 1 0 f32 scenario_a scenario_b] by (simp add: ev)
  moreover have ?s11 using general[OF sc, of 1 1 f32 scenario_a scenario_b] by (simp add: ev)
  moreover have ?general using general by blast
  ultimately show ?thesis by blast
qed

theorem C1_output_without_bias_witness:
  "stored_at f32
     \<lparr>typeA = [Dynamic, Static 3], typeB = [Dynamic, Dynamic], typeC = None,
      alpha = pos 2, beta = pos 0, transA = 0, transB = 0\<rparr>
     (memref_of [1, 3] (matrix [[pos 1, pos 2, pos 3]]))
     (memref_of [3, 1] (matrix [[pos 4], [pos 5], [pos 6]])) None [0, 0]
   = Some (pos 64)"
  using C1_output_without_bias[where et = f32 and N = 1 and K = 3 and M = 1 and n = 0 and m = 0
      and a = "matrix [[pos 1, pos 2, pos 3]]" and b = "matrix [[pos 4], [pos 5], [pos 6]]"
      and g = "\<lparr>typeA = [Dynamic, Static 3], typeB = [Dynamic, Dynamic], typeC = None,
      alpha = pos 2, beta = pos 0, transA = 0, transB = 0\<rparr>"]
  by (simp add: conforms_def matrix_def f32_def pos_def eval_nat_numeral)

text \<open>
  Claim C2. On every validated instance, for each of the four combinations of \<open>transA\<close>
  and \<open>transB\<close>, the reads of the operands A and B during the run are, for every
  iteration \<open>(n, m, k)\<close> in the order of the loops, one read of A at \<open>(k, n)\<close> when
  \<open>transA\<close> is set and at \<open>(n, k)\<close> otherwise, followed by one read of B at \<open>(m, k)\<close>
  when \<open>transB\<close> is set and at \<open>(k, m)\<close> otherwise.
\<close>

theorem C2_operand_access_pattern:
  assumes "valid_instance g N M K cOpt"
  shows "\<exists>tr. accesses et g (memref_of (a_shape (transA g) N K) a)
                 (memref_of (b_shape (transB g) K M) b) (bufferC cOpt) = Some tr \<and>
     loads_from [OperandA, OperandB] tr =
       concat (map (\<lambda>n. concat (map (\<lambda>m. concat (map (\<lambda>k.
           [(OperandA, if transA g \<noteq> 0 then [k, n] else [n, k]),
            (OperandB, if transB g \<noteq> 0 then [m, k] else [k, m])])
         [0..<K])) [0..<M])) [0..<N])"
  using accesses_gemm[OF assms, of et a b] operand_loads_gemm[of et g a b cOpt N M K]
  by (simp add: a_idx_def b_idx_def)

theorem C2_operand_access_pattern_witness:
  "\<exists>tr. accesses f32 (scenario_gemm\<lparr>transA := 1, typeB := [Dynamic, Dynamic]\<rparr>)
           (memref_of [2, 2] scenario_a) (memref_of [2, 1] scenario_b) None = Some tr \<and>
     loads_from [OperandA, OperandB] tr =
       [(OperandA, [0, 0]), (OperandB, [0, 0]), (OperandA, [1, 0]), (OperandB, [1, 0]),
        (OperandA, [0, 1]), (OperandB, [0, 0]), (OperandA, [1, 1]), (OperandB, [1, 0])]"
  using C2_operand_access_pattern[where et = f32 and N = 2 and M = 1 and K = 2
      and g = "scenario_gemm\<lparr>transA := 1, typeB := [Dynamic, Dynamic]\<rparr>"
      and a = scenario_a and b = scenario_b and cOpt = None]
  by (simp add: valid_instance_def conforms_def scenario_gemm_def a_shape_def b_shape_def
      bufferC_def eval_nat_numeral)

text \<open>
  Claim C4. On every validated instance with a bias operand C, the value stored at
  output element \<open>(n, m)\<close> is \<open>alpha * accumulator + beta * C[c_access]\<close>: the
  accumulator is the sum the reduction loop has computed for \<open>(n, m)\<close>, and the access to
  C is \<open>c_idx\<close>, index 0 on a broadcast axis and the loop variable on a materialised one.
  In the scenario A = [[1,2],[3,4]], B = [[5,6],[7,8]], alpha = 2, beta = 3,
  C = [[1,1],[1,1]] the output is [[41,47],[89,103]].
\<close>

theorem C4_output_with_bias:
  "(valid_instance g N M K (Some (sc, c)) \<and> n < N \<and> m < M \<longrightarrow>
    stored_at et g (memref_of (a_shape (transA g) N K) a)
      (memref_of (b_shape (transB g) K M) b) (Some (memref_of sc c)) [n, m] =
      Some (addf et
             (mulf et (alpha g)
                (foldl (\<lambda>acc k. addf et acc
                     (mulf et (a (a_idx (transA g) n k)) (b (b_idx (transB g) k m))))
                   (constant0 et) [0..<K]))
             (mulf et (beta g) (c (c_idx sc n m))))) \<and>
   stored_at f32 scenario_gemm_bias (memref_of [2, 2] scenario_a)
     (memref_of [2, 2] scenario_b) (Some (memref_of [2, 2] scenario_c)) [0, 0]
     = Some (pos 41) \<and>
   stored_at f32 scenario_gemm_bias (memref_of [2, 2] scenario_a)
     (memref_of [2, 2] scenario_b) (Some (memref_of [2, 2] scenario_c)) [0, 1]
     = Some (pos 47) \<and>
   stored_at f32 scenario_gemm_bias (memref_of [2, 2] scenario_a)
     (memref_of [2, 2] scenario_b) (Some (memref_of [2, 2] scenario_c)) [1, 0]
     = Some (pos 89) \<and>
   stored_at f32 scenario_gemm_bias (memref_of [2, 2] scenario_a)
     (memref_of [2, 2] scenario_b) (Some (memref_of [2, 2] scenario_c)) [1, 1]
     = Some (pos 103)"
  (is "?general \<and> ?s00 \<and> ?s01 \<and> ?s10 \<and> ?s11")
proof -
  have general: "stored_at et g (memref_of (a_shape (transA g) N K) a)
      (memref_of (b_shape (transB g) K M) b) (Some (memref_of sc c)) [n, m] =
      Some (addf et
             (mulf et (alpha g)
                (foldl (\<lambda>acc k. addf et acc
                     (mulf et (a (a_idx (transA g) n k)) (b (b_idx (transB g) k m))))
                   (constant0 et) [0..<K]))
             (mulf et (beta g) (c (c_idx sc n m))))"
    if "valid_instance g N M K (Some (sc, c))" "n < N" "m < M"
    for et :: "'c ElementType" and g N K M n m a b sc c
    using stored_at_gemm[OF that, of et a b]
    by (simp add: bufferC_def gemm_val_def acc_upto_def)
  have sc: "valid_instance scenario_gemm_bias 2 2 2 (Some ([2, 2], scenario_c))"
    by (simp add: valid_instance_def scenario_gemm_bias_def conforms_def a_shape_def
        b_shape_def broadcastable_def)
  have sh: "a_shape (transA scenario_gemm_bias) 2 2 = [2, 2]"
    "b_shape (transB scenario_gemm_bias) 2 2 = [2, 2]"
    by (simp_all add: scenario_gemm_bias_def a_shape_def b_shape_def)
  note ev = foldl_upt_2 scenario_gemm_bias_def scenario_a_def scenario_b_def scenario_c_def
    matrix_def f32_def pos_def a_idx_def b_idx_def c_idx_def
  have ?s00 using general[OF sc, of 0 0 f32 scenario_a scenario_b] unfolding sh
    by (simp add: ev)
  moreover have ?s01 using general[OF sc, of 0 1 f32 scenario_a scenario_b] unfolding sh
    by (simp add: ev)
  moreover have ?s10 using general[OF sc, of 1 0 f32 scenario_a scenario_b] unfolding sh
    by (simp add: ev)
  moreover have ?s11 using general[OF sc, of 1 1 f32 scenario_a scenario_b] unfolding sh
    by (simp add: ev)
  moreover have ?general using general by blast
  ultimately show ?thesis by blast
qed

theorem C4_output_with_bias_witness:
  "stored_at f32
     (scenario_gemm_bias\<lparr>typeC := Some [Dynamic], transB := 1\<rparr>)
     (memref_of [2, 2] scenario_a) (memref_of [2, 2] scenario_b)
     (Some (memref_of [2] (\<lambda>idx. pos (10 * Suc (idx ! 0))))) [1, 0]
   = Some (pos 108)"
  using C4_output_with_bias[where et = f32 and N = 2 and K = 2 and M = 2 and n = 1 and m = 0
      and a = scenario_a and b = scenario_b and sc = "[2]"
      and c = "\<lambda>idx. pos (10 * Suc (idx ! 0))"
      and g = "scenario_gemm_bias\<lparr>typeC := Some [Dynamic], transB := 1\<rparr>"]
  by (simp add: valid_instance_def conforms_def broadcastable_def scenario_gemm_bias_def
      scenario_a_def scenario_b_def a_shape_def b_shape_def a_idx_def b_idx_def c_idx_def
      matrix_def f32_def pos_def foldl_upt_2)

text \<open>
  Claim C5. The emitted code has exactly one loop nest over \<open>n\<close> and \<open>m\<close>, in this
  order, bounded by the rows of effective A and the columns of effective B, and inside
  its body exactly one loop over \<open>k\<close>, bounded by the columns of effective A, with no
  loop inside. The accesses of a run on a validated instance show the order of the
  iterations and the life of the accumulator: for every \<open>n\<close> in order, for every \<open>m\<close> in
  order, the accumulator is set to the zero constant, then for every \<open>k\<close> in order it is
  read and written once with the sum of its value and the product of the two operand
  elements read in that iteration, then it is read once, and the element \<open>(n, m)\<close> of the
  output is stored.
\<close>

theorem C5_loop_nest_and_accumulator:
  assumes "valid_instance g N M K cOpt"
  shows "emitted_nests et g = Some
     [Nest [IvN, IvM]
        [getDim OperandA (typeA g) (if transA g \<noteq> 0 then 1 else 0),
         getDim OperandB (typeB g) (if transB g \<noteq> 0 then 0 else 1)]
        [Nest [IvK] [getDim OperandA (typeA g) (if transA g \<noteq> 0 then 0 else 1)] []]] \<and>
   accesses et g (memref_of (a_shape (transA g) N K) a)
     (memref_of (b_shape (transB g) K M) b) (bufferC cOpt) = Some
     (concat (map (\<lambda>n. concat (map (\<lambda>m.
         Store ReductionVal [] (constant0 et) #
         concat (map (\<lambda>k.
             [Load OperandA (a_idx (transA g) n k), Load OperandB (b_idx (transB g) k m),
              Load ReductionVal [],
              Store ReductionVal []
                (addf et (acc_upto et (transA g) (transB g) a b n m k)
                   (mulf et (a (a_idx (transA g) n k)) (b (b_idx (transB g) k m))))])
           [0..<K]) @
         Load ReductionVal [] #
         (case cOpt of None \<Rightarrow> [] | Some (sc, c) \<Rightarrow> [Load OperandC (c_idx sc n m)]) @
         [Store Alloc [n, m] (gemm_val et g a b cOpt K n m)])
       [0..<M])) [0..<N]))"
  using emitted_nests_well_ranked[OF valid_well_ranked[OF assms], of et]
    accesses_gemm[OF assms, of et a b] gemm_events_unfold[of et g a b cOpt N M K]
  by (simp only:)

theorem C5_loop_nest_and_accumulator_witness:
  "emitted_nests f32 scenario_gemm =
     Some [Nest [IvN, IvM] [Literal 2, Literal 2] [Nest [IvK] [Literal 2] []]] \<and>
   accesses f32 scenario_gemm (memref_of [2, 2] scenario_a) (memref_of [2, 2] scenario_b) None
   = Some
     [Store ReductionVal [] (pos 0),
      Load OperandA [0, 0], Load OperandB [0, 0], Load ReductionVal [],
      Store ReductionVal [] (pos 5),
      Load OperandA [0, 1], Load OperandB [1, 0], Load ReductionVal [],
      Store ReductionVal [] (pos 19),
      Load ReductionVal [], Store Alloc [0, 0] (pos 19),
      Store ReductionVal [] (pos 0),
      Load OperandA [0, 0], Load OperandB [0, 1], Load ReductionVal [],
      Store ReductionVal [] (pos 6),
      Load OperandA [0, 1], Load OperandB [1, 1], Load ReductionVal [],
      Store ReductionVal [] (pos 22),
      Load ReductionVal [], Store Alloc [0, 1] (pos 22),
      Store ReductionVal [] (pos 0),
      Load OperandA [1, 0], Load OperandB [0, 0], Load ReductionVal [],
      Store ReductionVal [] (pos 15),
      Load OperandA [1, 1], Load OperandB [1, 0], Load ReductionVal [],
      Store ReductionVal [] (pos 43),
      Load ReductionVal [], Store Alloc [1, 0] (pos 43),
      Store ReductionVal [] (pos 0),
      Load OperandA [1, 0], Load OperandB [0, 1], Load ReductionVal [],
      Store ReductionVal [] (pos 18),
      Load OperandA [1, 1], Load OperandB [1, 1], Load ReductionVal [],
      Store ReductionVal [] (pos 50),
      Load ReductionVal [], Store Alloc [1, 1] (pos 50)]"
  using C5_loop_nest_and_accumulator[where et = f32 and g = scenario_gemm and N = 2 and M = 2
      and K = 2 and cOpt = None and a = scenario_a and b = scenario_b]
  by (simp add: valid_instance_def conforms_def scenario_gemm_def scenario_a_def
      scenario_b_def a_shape_def b_shape_def a_idx_def b_idx_def bufferC_def getDim_def
      gemm_val_def acc_upto_def matrix_def f32_def pos_def eval_nat_numeral)

text \<open>
  Claim C3, as stated, fails: it says that the access index of C on an output axis is 0
  if and only if the aligned size of C is exactly 1. The source tests \<open>dim > 1\<close>, so a
  size of 0 also gives index 0. The instance below is validated (A is 0 by 3, B is 3 by
  4, C is 0 by 4, the output is empty) and the emitted access to C is \<open>[0, m]\<close>, not
  \<open>[n, m]\<close>.
\<close>

theorem C3_broadcast_index_counterexample:
  "valid_instance empty_gemm 0 4 3 (Some ([0, 4], matrix [])) \<and>
   typeC empty_gemm = Some [Static 0, Static 4] \<and>
   emitted_loads f32 empty_gemm OperandC = Some [[Literal 0, InductionVar IvM]]"
proof -
  have wr: "well_ranked empty_gemm" by (simp add: well_ranked_def empty_gemm_def)
  have tC: "typeC empty_gemm = Some [Static 0, Static 4]" by (simp add: empty_gemm_def)
  from emitted_loads_well_ranked[OF wr, of f32] obtain sh cAcc where
    sh: "Compute empty_gemm = Some sh" and cAcc: "cAccessFct sh = Some cAcc"
    and l: "emitted_loads f32 empty_gemm OperandC = Some (if hasBias sh then [cAcc] else [])"
    by blast
  from cAccessFct_Compute[OF sh tC] cAcc
  have "cAcc = [Literal 0, InductionVar IvM]" by (simp add: getDim_def)
  with l Compute_bias(2)[OF sh tC] tC show ?thesis
    by (simp add: valid_instance_def empty_gemm_def conforms_def a_shape_def b_shape_def
        broadcastable_def)
qed

text \<open>
  Claim C3, amended. For an operator with a bias the emitted code loads C exactly once,
  and on each axis of C the access index evaluates to 0 if and only if the size of that
  axis is at most 1, and to the loop variable of the aligned output axis otherwise. A C
  of rank 2 is indexed on both output axes, a C of rank 1 by a single index on the last
  output axis, and a C of rank 0 by no index.
\<close>

theorem C3_broadcast_index:
  assumes "well_ranked g" "typeC g = Some tC"
    and "mem s OperandC = Some bufC" "conforms tC (shape bufC)"
    and "ivs s IvN = Some n" "ivs s IvM = Some m"
  shows "\<exists>cAcc. emitted_loads et g OperandC = Some [cAcc] \<and>
     evals s cAcc = Some
       (case shape bufC of
          [] \<Rightarrow> []
        | [d] \<Rightarrow> [if d \<le> 1 then 0 else m]
        | d0 # d1 # _ \<Rightarrow> [if d0 \<le> 1 then 0 else n, if d1 \<le> 1 then 0 else m])"
proof -
  from emitted_loads_well_ranked[OF assms(1), of et] obtain sh cAcc where
    sh: "Compute g = Some sh" and cAcc: "cAccessFct sh = Some cAcc"
    and l: "emitted_loads et g OperandC = Some (if hasBias sh then [cAcc] else [])"
    by blast
  from cAccessFct_eval[OF sh assms(2-6)] cAcc
  have "evals s cAcc = Some (c_idx (shape bufC) n m)" by simp
  moreover have "c_idx (shape bufC) n m =
       (case shape bufC of
          [] \<Rightarrow> []
        | [d] \<Rightarrow> [if d \<le> 1 then 0 else m]
        | d0 # d1 # _ \<Rightarrow> [if d0 \<le> 1 then 0 else n, if d1 \<le> 1 then 0 else m])"
    by (auto simp: c_idx_def split: list.splits)
  ultimately show ?thesis using l Compute_bias(2)[OF sh assms(2)] by simp
qed

theorem C3_broadcast_index_witness:
  "\<exists>cAcc. emitted_loads f32 (scenario_gemm_bias\<lparr>typeC := Some [Dynamic, Static 2]\<rparr>) OperandC
       = Some [cAcc] \<and>
     evals \<lparr>mem = (\<lambda>b. Some (memref_of [1, 2] scenario_c)), vals = Map.empty,
            ivs = [IvN \<mapsto> 1, IvM \<mapsto> 1], trace = []\<rparr> cAcc = Some [0, 1]"
proof -
  let ?g = "scenario_gemm_bias\<lparr>typeC := Some [Dynamic, Static 2]\<rparr>"
  let ?s = "\<lparr>mem = (\<lambda>b. Some (memref_of [1, 2] scenario_c)), vals = Map.empty,
            ivs = [IvN \<mapsto> 1, IvM \<mapsto> 1], trace = []\<rparr> :: fval State"
  have h: "well_ranked ?g" "typeC ?g = Some [Dynamic, Static 2]"
    "mem ?s OperandC = Some (memref_of [1, 2] scenario_c)"
    "conforms [Dynamic, Static 2] (shape (memref_of [1, 2] scenario_c))"
    "ivs ?s IvN = Some 1" "ivs ?s IvM = Some 1"
    by (simp_all add: well_ranked_def scenario_gemm_bias_def conforms_def memref_of_def)
  from C3_broadcast_index[OF h, of f32] show ?thesis by (simp add: memref_of_def)
qed

text \<open>
  Claim C7, as stated, fails: the code lowered without C and the code lowered with an
  all-zero C do not always store the same bits. With alpha = -1, beta = 1 and 1 by 1 zero
  matrices the first stores \<open>-0\<close> and the second, which adds \<open>beta * 0 = +0\<close>, stores \<open>+0\<close>.
\<close>

theorem C7_zero_bias_counterexample:
  "stored_at f32 (zeros_gemm\<lparr>typeC := None\<rparr>)
     (memref_of [1, 1] (matrix [[pos 0]])) (memref_of [1, 1] (matrix [[pos 0]])) None [0, 0]
     = Some (neg 0) \<and>
   stored_at f32 zeros_gemm
     (memref_of [1, 1] (matrix [[pos 0]])) (memref_of [1, 1] (matrix [[pos 0]]))
     (Some (memref_of [1, 1] (matrix [[pos 0]]))) [0, 0]
     = Some (pos 0) \<and>
   neg 0 \<noteq> pos 0"
proof -
  have v1: "valid_instance (zeros_gemm\<lparr>typeC := None\<rparr>) 1 1 1 None"
    by (simp add: valid_instance_def zeros_gemm_def conforms_def a_shape_def b_shape_def)
  have v2: "valid_instance zeros_gemm 1 1 1 (Some ([1, 1], matrix [[pos 0]]))"
    by (simp add: valid_instance_def zeros_gemm_def conforms_def a_shape_def b_shape_def
        broadcastable_def)
  note ev = zeros_gemm_def a_shape_def b_shape_def a_idx_def b_idx_def c_idx_def bufferC_def
    gemm_val_def acc_upto_def matrix_def f32_def pos_def neg_def
  from stored_at_gemm[OF v1, of 0 0 f32 "matrix [[pos 0]]" "matrix [[pos 0]]"]
  have "stored_at f32 (zeros_gemm\<lparr>typeC := None\<rparr>)
     (memref_of [1, 1] (matrix [[pos 0]])) (memref_of [1, 1] (matrix [[pos 0]])) None [0, 0]
     = Some (neg 0)"
    by (simp add: ev)
  moreover
  from stored_at_gemm[OF v2, of 0 0 f32 "matrix [[pos 0]]" "matrix [[pos 0]]"]
  have "stored_at f32 zeros_gemm
     (memref_of [1, 1] (matrix [[pos 0]])) (memref_of [1, 1] (matrix [[pos 0]]))
     (Some (memref_of [1, 1] (matrix [[pos 0]]))) [0, 0]
     = Some (pos 0)"
    by (simp add: ev)
  ultimately show ?thesis by (simp add: pos_def neg_def)
qed

text \<open>
  Claim C7, amended. On every validated instance with an all-zero C, both lowerings run
  to the end; the one without C stores a value \<open>x\<close> at \<open>(n, m)\<close> whatever beta is, and the
  one with C stores \<open>x + beta * 0\<close> in the element arithmetic. The two agree on the
  elements where \<open>x + beta * 0 = x\<close>.
\<close>

theorem C7_zero_bias_adds_beta_times_zero:
  assumes "valid_instance g N M K (Some (sc, \<lambda>idx. constant0 et))" "n < N" "m < M"
  shows "\<exists>x.
     (\<forall>beta'. stored_at et (g\<lparr>typeC := None, beta := beta'\<rparr>)
        (memref_of (a_shape (transA g) N K) a) (memref_of (b_shape (transB g) K M) b)
        None [n, m] = Some x) \<and>
     stored_at et g
        (memref_of (a_shape (transA g) N K) a) (memref_of (b_shape (transB g) K M) b)
        (Some (memref_of sc (\<lambda>idx. constant0 et))) [n, m]
       = Some (addf et x (mulf et (beta g) (constant0 et)))"
proof -
  let ?x = "mulf et (alpha g) (acc_upto et (transA g) (transB g) a b n m K)"
  have "stored_at et (g\<lparr>typeC := None, beta := beta'\<rparr>)
        (memref_of (a_shape (transA g) N K) a) (memref_of (b_shape (transB g) K M) b)
        None [n, m] = Some ?x" for beta'
  proof -
    from assms(1) have "valid_instance (g\<lparr>typeC := None, beta := beta'\<rparr>) N M K None"
      by (simp add: valid_instance_def)
    from stored_at_gemm[OF this assms(2,3), of et a b] show ?thesis
      by (simp add: bufferC_def gemm_val_def)
  qed
  moreover have "stored_at et g
        (memref_of (a_shape (transA g) N K) a) (memref_of (b_shape (transB g) K M) b)
        (Some (memref_of sc (\<lambda>idx. constant0 et))) [n, m]
       = Some (addf et ?x (mulf et (beta g) (constant0 et)))"
    using stored_at_gemm[OF assms, of et a b] by (simp add: bufferC_def gemm_val_def)
  ultimately show ?thesis by blast
qed

theorem C7_zero_bias_adds_beta_times_zero_witness:
  "\<exists>x.
     (\<forall>beta'. stored_at f32
        (scenario_gemm_bias\<lparr>typeC := None, beta := beta'\<rparr>)
        (memref_of [2, 2] scenario_a) (memref_of [2, 2] scenario_b) None [1, 0] = Some x) \<and>
     stored_at f32 (scenario_gemm_bias\<lparr>typeC := Some [Static 1, Dynamic]\<rparr>)
        (memref_of [2, 2] scenario_a) (memref_of [2, 2] scenario_b)
        (Some (memref_of [1, 2] (\<lambda>idx. pos 0))) [1, 0]
       = Some (fval_add x (fval_mul (pos 3) (pos 0)))"
proof -
  have "valid_instance (scenario_gemm_bias\<lparr>typeC := Some [Static 1, Dynamic]\<rparr>) 2 2 2
      (Some ([1, 2], \<lambda>idx. constant0 f32))"
    by (simp add: valid_instance_def conforms_def broadcastable_def scenario_gemm_bias_def
        a_shape_def b_shape_def)
  from C7_zero_bias_adds_beta_times_zero[OF this, of 1 0 scenario_a scenario_b]
  show ?thesis
    by (simp add: scenario_gemm_bias_def a_shape_def b_shape_def f32_def pos_def)
qed

text \<open>
  Claim C8. On every validated instance whose reduction dimension has size 1 the
  reduction loop runs exactly once for every output element: the run reads A once and B
  once per element, at \<open>k = 0\<close>. The value stored at \<open>(n, m)\<close> equals \<open>alpha * p\<close>, where
  \<open>p\<close> is the product of the element of effective A at \<open>(n, 0)\<close> and the element of
  effective B at \<open>(0, m)\<close>, plus \<open>beta\<close> times the element of C at its broadcast access when
  the bias is present. Equality is equality of values in the element type: any relation
  \<open>veq\<close> under which adding a value to the zero constant gives that value and which the
  multiplication (in its second operand) and the addition (in its first operand) respect.
  For exact arithmetic this is identity; for floating-point numbers it is the numeric
  comparison, under which the two zeros are equal.
\<close>

theorem C8_reduction_of_size_one:
  assumes "valid_instance g N M 1 cOpt" "n < N" "m < M"
    and "\<forall>x. veq (addf et (constant0 et) x) x"
    and "\<forall>w x y. veq x y \<longrightarrow> veq (mulf et w x) (mulf et w y)"
    and "\<forall>x y z. veq x y \<longrightarrow> veq (addf et x z) (addf et y z)"
  shows "(\<exists>tr. accesses et g (memref_of (a_shape (transA g) N 1) a)
                  (memref_of (b_shape (transB g) 1 M) b) (bufferC cOpt) = Some tr \<and>
      loads_from [OperandA, OperandB] tr =
        concat (map (\<lambda>n. concat (map (\<lambda>m.
            [(OperandA, a_idx (transA g) n 0), (OperandB, b_idx (transB g) 0 m)])
          [0..<M])) [0..<N])) \<and>
    (\<exists>v. stored_at et g (memref_of (a_shape (transA g) N 1) a)
            (memref_of (b_shape (transB g) 1 M) b) (bufferC cOpt) [n, m] = Some v \<and>
       veq v
         (case cOpt of
            None \<Rightarrow>
              mulf et (alpha g)
                (mulf et (a (a_idx (transA g) n 0)) (b (b_idx (transB g) 0 m)))
          | Some (sc, c) \<Rightarrow>
              addf et
                (mulf et (alpha g)
                   (mulf et (a (a_idx (transA g) n 0)) (b (b_idx (transB g) 0 m))))
                (mulf et (beta g) (c (c_idx sc n m)))))"
proof -
  let ?p = "mulf et (a (a_idx (transA g) n 0)) (b (b_idx (transB g) 0 m))"
  let ?x = "mulf et (alpha g) (addf et (constant0 et) ?p)"
  have st: "stored_at et g (memref_of (a_shape (transA g) N 1) a)
          (memref_of (b_shape (transB g) 1 M) b) (bufferC cOpt) [n, m] =
        Some (case cOpt of
                None \<Rightarrow> ?x
              | Some (sc, c) \<Rightarrow> addf et ?x (mulf et (beta g) (c (c_idx sc n m))))"
    using stored_at_gemm[OF assms(1-3), of et a b]
    by (simp add: gemm_val_def acc_upto_Suc acc_upto_0 split: option.splits)
  have x: "veq ?x (mulf et (alpha g) ?p)"
    using assms(4,5) by blast
  have veq: "veq (case cOpt of
                None \<Rightarrow> ?x
              | Some (sc, c) \<Rightarrow> addf et ?x (mulf et (beta g) (c (c_idx sc n m))))
         (case cOpt of
            None \<Rightarrow> mulf et (alpha g) ?p
          | Some (sc, c) \<Rightarrow>
              addf et (mulf et (alpha g) ?p) (mulf et (beta g) (c (c_idx sc n m))))"
  proof (cases cOpt)
    case None
    with x show ?thesis by simp
  next
    case (Some q)
    obtain sc c where "q = (sc, c)" by (cases q)
    with Some x assms(6) show ?thesis by simp
  qed
  have tr: "\<exists>tr. accesses et g (memref_of (a_shape (transA g) N 1) a)
                  (memref_of (b_shape (transB g) 1 M) b) (bufferC cOpt) = Some tr \<and>
      loads_from [OperandA, OperandB] tr =
        concat (map (\<lambda>n. concat (map (\<lambda>m.
            [(OperandA, a_idx (transA g) n 0), (OperandB, b_idx (transB g) 0 m)])
          [0..<M])) [0..<N])"
    using accesses_gemm[OF assms(1), of et a b] operand_loads_gemm[of et g a b cOpt N M 1]
    by simp
  from st veq tr show ?thesis by blast
qed

theorem C8_reduction_of_size_one_witness:
  "(\<exists>tr. accesses f32
           \<lparr>typeA = [Static 1, Static 1], typeB = [Static 1, Static 1], typeC = None,
            alpha = pos 1, beta = pos 0, transA = 0, transB = 0\<rparr>
           (memref_of [1, 1] (matrix [[neg 1]])) (memref_of [1, 1] (matrix [[pos 0]])) None
         = Some tr \<and>
      loads_from [OperandA, OperandB] tr = [(OperandA, [0, 0]), (OperandB, [0, 0])]) \<and>
   (\<exists>v. stored_at f32
           \<lparr>typeA = [Static 1, Static 1], typeB = [Static 1, Static 1], typeC = None,
            alpha = pos 1, beta = pos 0, transA = 0, transB = 0\<rparr>
           (memref_of [1, 1] (matrix [[neg 1]])) (memref_of [1, 1] (matrix [[pos 0]])) None
           [0, 0] = Some v \<and>
      fval_eq v (fval_mul (pos 1) (fval_mul (neg 1) (pos 0))))"
proof -
  let ?g = "\<lparr>typeA = [Static 1, Static 1], typeB = [Static 1, Static 1], typeC = None,
      alpha = pos 1, beta = pos 0, transA = 0, transB = 0\<rparr> :: fval ONNXGemmOp"
  have v: "valid_instance ?g 1 1 1 None"
    by (simp add: valid_instance_def conforms_def a_shape_def b_shape_def)
  have h1: "\<forall>x. fval_eq (addf f32 (constant0 f32) x) x"
  proof
    fix x show "fval_eq (addf f32 (constant0 f32) x) x"
      by (cases x) (simp add: f32_def)
  qed
  have h2: "\<forall>w x y. fval_eq x y \<longrightarrow> fval_eq (mulf f32 w x) (mulf f32 w y)"
  proof (intro allI impI)
    fix w x y assume "fval_eq x y"
    then show "fval_eq (mulf f32 w x) (mulf f32 w y)"
      by (cases w; cases x; cases y) (auto simp: f32_def)
  qed
  have h3: "\<forall>x y z. fval_eq x y \<longrightarrow> fval_eq (addf f32 x z) (addf f32 y z)"
  proof (intro allI impI)
    fix x y z assume "fval_eq x y"
    then show "fval_eq (addf f32 x z) (addf f32 y z)"
      by (cases x; cases y; cases z) (auto simp: f32_def)
  qed
  have n: "(0::nat) < 1" by simp
  from C8_reduction_of_size_one[OF v n n h1 h2 h3, of "matrix [[neg 1]]" "matrix [[pos 0]]"]
  show ?thesis
    by (simp add: a_shape_def b_shape_def a_idx_def b_idx_def bufferC_def matrix_def f32_def)
qed

text \<open>
  Claim C9. The emitted access index of C on a participating axis is decided by the
  test \<open>dim > 1\<close>: for a static size it is the loop variable when the size is above 1 and
  the literal 0 otherwise, so also for size 0; for a dynamic size it is a selection on
  the comparison of the run-time size with 1, between the loop variable and 0, which
  evaluates accordingly.
\<close>

theorem C9_broadcast_test_is_greater_than_one:
  assumes "well_ranked g"
  shows "(typeC g = Some [t1] \<longrightarrow>
      emitted_loads et g OperandC = Some
        [[case t1 of
            Static d \<Rightarrow> if 1 < d then InductionVar IvM else Literal 0
          | Dynamic \<Rightarrow>
              Select (Greater (MemRefDim OperandC 0) (Literal 1)) (InductionVar IvM)
                (Literal 0)]]) \<and>
    (typeC g = Some [t0, t1] \<longrightarrow>
      emitted_loads et g OperandC = Some
        [[case t0 of
            Static d \<Rightarrow> if 1 < d then InductionVar IvN else Literal 0
          | Dynamic \<Rightarrow>
              Select (Greater (MemRefDim OperandC 0) (Literal 1)) (InductionVar IvN)
                (Literal 0),
          case t1 of
            Static d \<Rightarrow> if 1 < d then InductionVar IvM else Literal 0
          | Dynamic \<Rightarrow>
              Select (Greater (MemRefDim OperandC 1) (Literal 1)) (InductionVar IvM)
                (Literal 0)]]) \<and>
    (mem s OperandC = Some bufC \<and> i < length (shape bufC) \<and> ivs s v = Some x \<longrightarrow>
      eval s (Select (Greater (MemRefDim OperandC i) (Literal 1)) (InductionVar v) (Literal 0))
        = Some (if 1 < shape bufC ! i then x else 0))"
proof -
  from emitted_loads_well_ranked[OF assms, of et] obtain sh cAcc where
    sh: "Compute g = Some sh" and cAcc: "cAccessFct sh = Some cAcc"
    and l: "emitted_loads et g OperandC = Some (if hasBias sh then [cAcc] else [])"
    by blast
  have r1: "emitted_loads et g OperandC = Some
        [[case t1 of
            Static d \<Rightarrow> if 1 < d then InductionVar IvM else Literal 0
          | Dynamic \<Rightarrow>
              Select (Greater (MemRefDim OperandC 0) (Literal 1)) (InductionVar IvM)
                (Literal 0)]]"
    if tC: "typeC g = Some [t1]"
    using cAccessFct_Compute[OF sh tC] cAcc l Compute_bias(2)[OF sh tC]
    by (cases t1; simp add: getDim_def)
  have r2: "emitted_loads et g OperandC = Some
        [[case t0 of
            Static d \<Rightarrow> if 1 < d then InductionVar IvN else Literal 0
          | Dynamic \<Rightarrow>
              Select (Greater (MemRefDim OperandC 0) (Literal 1)) (InductionVar IvN)
                (Literal 0),
          case t1 of
            Static d \<Rightarrow> if 1 < d then InductionVar IvM else Literal 0
          | Dynamic \<Rightarrow>
              Select (Greater (MemRefDim OperandC 1) (Literal 1)) (InductionVar IvM)
                (Literal 0)]]"
    if tC: "typeC g = Some [t0, t1]"
    using cAccessFct_Compute[OF sh tC] cAcc l Compute_bias(2)[OF sh tC]
    by (cases t0; cases t1; simp add: getDim_def)
  have r3: "eval s (Select (Greater (MemRefDim OperandC i) (Literal 1)) (InductionVar v)
        (Literal 0)) = Some (if 1 < shape bufC ! i then x else 0)"
    if "mem s OperandC = Some bufC" "i < length (shape bufC)" "ivs s v = Some x"
    using that by simp
  from r1 r2 r3 show ?thesis by blast
qed

theorem C9_broadcast_test_is_greater_than_one_witness:
  "emitted_loads f32 (scenario_gemm_bias\<lparr>typeC := Some [Static 0, Dynamic]\<rparr>) OperandC =
     Some [[Literal 0,
            Select (Greater (MemRefDim OperandC 1) (Literal 1)) (InductionVar IvM)
              (Literal 0)]] \<and>
   eval \<lparr>mem = (\<lambda>b. Some (memref_of [0, 2] scenario_c)), vals = Map.empty,
          ivs = [IvM \<mapsto> 1], trace = []\<rparr>
     (Select (Greater (MemRefDim OperandC 1) (Literal 1)) (InductionVar IvM) (Literal 0))
     = Some 1"
proof -
  let ?g = "scenario_gemm_bias\<lparr>typeC := Some [Static 0, Dynamic]\<rparr>"
  let ?s = "\<lparr>mem = (\<lambda>b. Some (memref_of [0, 2] scenario_c)), vals = Map.empty,
          ivs = [IvM \<mapsto> 1], trace = []\<rparr> :: fval State"
  have wr: "well_ranked ?g" by (simp add: well_ranked_def scenario_gemm_bias_def)
  from C9_broadcast_test_is_greater_than_one[OF wr, of "Dynamic" f32 "Static 0" ?s
      "memref_of [0, 2] scenario_c" 1 IvM 1]
  show ?thesis by (simp add: scenario_gemm_bias_def memref_of_def)
qed

text \<open>
  Claim C10. The lowering depends on \<open>transA\<close> and \<open>transB\<close> only through their
  comparison with zero: replacing every nonzero value by 1 changes nothing in the
  emitted code; zero gives the access \<open>(n, k)\<close> to A and \<open>(k, m)\<close> to B, any other value
  gives \<open>(k, n)\<close> and \<open>(m, k)\<close>.
\<close>

theorem C10_transpose_attributes_compared_with_zero:
  "lowerGemm et sh g =
     lowerGemm et sh (g\<lparr>transA := (if transA g = 0 then 0 else 1),
                        transB := (if transB g = 0 then 0 else 1)\<rparr>) \<and>
   matchAndRewrite et g =
     matchAndRewrite et (g\<lparr>transA := (if transA g = 0 then 0 else 1),
                           transB := (if transB g = 0 then 0 else 1)\<rparr>) \<and>
   (well_ranked g \<longrightarrow>
      emitted_loads et g OperandA =
        Some [if transA g = 0 then [InductionVar IvN, InductionVar IvK]
              else [InductionVar IvK, InductionVar IvN]] \<and>
      emitted_loads et g OperandB =
        Some [if transB g = 0 then [InductionVar IvK, InductionVar IvM]
              else [InductionVar IvM, InductionVar IvK]])"
proof -
  define g' where "g' = g\<lparr>transA := (if transA g = 0 then 0 else 1),
                         transB := (if transB g = 0 then 0 else 1)\<rparr>"
  have same: "alpha g' = alpha g" "beta g' = beta g" "typeA g' = typeA g"
    "typeB g' = typeB g" "typeC g' = typeC g"
    "(transA g' \<noteq> 0) = (transA g \<noteq> 0)" "(transB g' \<noteq> 0) = (transB g \<noteq> 0)"
    by (simp_all add: g'_def)
  have body: "outerBody sh g' cAcc = outerBody sh g cAcc" for sh cAcc
    by (simp only: outerBody_def innerBody_def aAccessFct_def bAccessFct_def same)
  have low: "lowerGemm et sh g' = lowerGemm et sh g" for sh
    by (simp only: lowerGemm_def body same)
  have "Compute g' = Compute g"
    by (simp only: Compute_def same)
  then have "matchAndRewrite et g' = matchAndRewrite et g"
    by (simp only: matchAndRewrite_def low)
  moreover have "emitted_loads et g OperandA =
        Some [if transA g = 0 then [InductionVar IvN, InductionVar IvK]
              else [InductionVar IvK, InductionVar IvN]] \<and>
      emitted_loads et g OperandB =
        Some [if transB g = 0 then [InductionVar IvK, InductionVar IvM]
              else [InductionVar IvM, InductionVar IvK]]"
    if "well_ranked g"
    using emitted_loads_well_ranked[OF that, of et]
    by (auto simp: aAccessFct_def bAccessFct_def)
  ultimately show ?thesis using low[of sh] unfolding g'_def by simp
qed

theorem C10_transpose_attributes_compared_with_zero_witness:
  "matchAndRewrite f32 (scenario_gemm\<lparr>transA := 7, transB := - 3\<rparr>) =
     matchAndRewrite f32 (scenario_gemm\<lparr>transA := 1, transB := 1\<rparr>) \<and>
   emitted_loads f32 (scenario_gemm\<lparr>transA := 7, transB := - 3\<rparr>) OperandA =
     Some [[InductionVar IvK, InductionVar IvN]] \<and>
   emitted_loads f32 (scenario_gemm\<lparr>transA := 7, transB := - 3\<rparr>) OperandB =
     Some [[InductionVar IvM, InductionVar IvK]]"
proof -
  have wr: "well_ranked (scenario_gemm\<lparr>transA := 7, transB := - 3\<rparr>)"
    by (simp add: well_ranked_def scenario_gemm_def)
  from C10_transpose_attributes_compared_with_zero[of f32 _
      "scenario_gemm\<lparr>transA := 7, transB := - 3\<rparr>"] wr
  show ?thesis by simp
qed

end
